theory Spec2Isabelle
  imports Complex_Main
begin

section \<open>Piecewise-linear functions (graph/function.py)\<close>

text \<open>
  Python floats are modelled as \<^typ>\<open>real\<close>: every statement below is about exact real
  arithmetic. The exceptions the code can raise are values of \<open>error\<close>:
  \<^item> \<open>ValueError_no_points\<close>: \<^verbatim>\<open>ValueError('Function object has no stored points.')\<close>,
    raised by \<^verbatim>\<open>Function.__call__\<close> (the spec's EmptyFunction);
  \<^item> \<open>ValueError_duplicate\<close>: \<^verbatim>\<open>ValueError('Point at x=... already exists ...')\<close>, raised by
    \<^verbatim>\<open>Function.insert\<close> (the spec's DuplicatePoint);
  \<^item> \<open>IndexError\<close>: a list index out of range (the spec's IndexOutOfRange);
  \<^item> \<open>ZeroDivisionError\<close>: a float division by zero;
  \<^item> \<open>KeyError\<close>: a missing dictionary key;
  \<^item> \<open>NotImplementedError\<close>: raised by the abstract \<^verbatim>\<open>Force\<close>;
  \<^item> \<open>RecursionError\<close>: \<^verbatim>\<open>search_best_index\<close> on a section with \<open>stop < start\<close>, which
    no call site of the repository passes;
  \<^item> \<open>AttributeError\<close>: an attribute read on \<^verbatim>\<open>None\<close>.
\<close>

datatype error =
    ValueError_no_points
  | ValueError_duplicate
  | IndexError
  | ZeroDivisionError
  | KeyError
  | NotImplementedError
  | RecursionError
  | AttributeError

type_synonym point = "real \<times> real"

text \<open>Python's \<^verbatim>\<open>xs[i]\<close>: a negative index counts from the end, and an index out of
  range raises IndexError.\<close>

definition py_index :: "'a list \<Rightarrow> int \<Rightarrow> error + 'a" where
  "py_index xs i =
     (if 0 \<le> i \<and> i < int (length xs) then Inr (xs ! nat i)
      else if i < 0 \<and> - int (length xs) \<le> i then Inr (xs ! nat (int (length xs) + i))
      else Inl IndexError)"

text \<open>Python's \<^verbatim>\<open>xs.insert(index, item)\<close> for \<open>0 \<le> index\<close>: an index beyond the end
  appends.\<close>

definition list_insert :: "'a list \<Rightarrow> nat \<Rightarrow> 'a \<Rightarrow> 'a list" where
  "list_insert xs index item = take index xs @ item # drop index xs"

text \<open>Python's \<^verbatim>\<open>a / b\<close> on floats.\<close>

definition py_div :: "real \<Rightarrow> real \<Rightarrow> error + real" where
  "py_div a b = (if b = 0 then Inl ZeroDivisionError else Inr (a / b))"

datatype IntegrationMethod = EULER | TRAPEZOIDAL | RK4

text \<open>A \<^verbatim>\<open>Function\<close> object: its points, its cached integral (another \<^verbatim>\<open>Function\<close>
  object, or \<^verbatim>\<open>None\<close>) and its integration method. The integral object is reached only
  through its owner inside graph/function.py, so it is nested in the owner's value.\<close>

datatype Function =
  Function (points: "point list") (integral: "Function option")
           (integration_method: "IntegrationMethod option")

definition Function_init :: Function where
  "Function_init = Function [] None None"

text \<open>\<^verbatim>\<open>search_best_index(x, slice(start, stop))\<close>. The section is a pair of naturals;
  every call site passes \<^verbatim>\<open>slice(0, len(self.__points))\<close> and the recursion keeps
  \<open>start \<le> stop\<close>.\<close>

function search_best_index :: "point list \<Rightarrow> real \<Rightarrow> nat \<Rightarrow> nat \<Rightarrow> error + nat" where
  "search_best_index ps x start stop =
     (if start = stop then Inr start
      else if stop < start then Inl RecursionError
      else
        let offset = start + (stop - start) div 2 in
        (case py_index ps (int offset) of
           Inl e \<Rightarrow> Inl e
         | Inr p \<Rightarrow>
             let middle = fst p in
             if x > middle then search_best_index ps x (offset + 1) stop
             else if x < middle then search_best_index ps x start offset
             else Inr offset))"
  by pat_completeness auto
termination
  by (relation "measure (\<lambda>(ps, x, start, stop). stop - start)") auto

declare search_best_index.simps [simp del]

text \<open>\<^verbatim>\<open>Function.__call__\<close>.\<close>

definition Function_call :: "Function \<Rightarrow> real \<Rightarrow> error + real" where
  "Function_call f x =
     (let ps = points f in
      if ps = [] then Inl ValueError_no_points
      else if length ps = 1 then Inr (snd (ps ! 0))
      else
        (case (if x > fst (last ps) then Inr (length ps - 1)
               else if x < fst (ps ! 0) then Inr 1
               else search_best_index ps x 0 (length ps)) of
           Inl e \<Rightarrow> Inl e
         | Inr index \<Rightarrow>
             (case py_index ps (int index - 1) of
                Inl e \<Rightarrow> Inl e
              | Inr a \<Rightarrow>
                  (case py_index ps (int index) of
                     Inl e \<Rightarrow> Inl e
                   | Inr b \<Rightarrow>
                       (case py_div (snd b - snd a) (fst b - fst a) of
                          Inl e \<Rightarrow> Inl e
                        | Inr slope \<Rightarrow> Inr (slope * (x - fst a) + snd a))))))"

subsection \<open>Mutating operations\<close>

text \<open>
  A mutating operation returns the object as the call leaves it, together with the exception
  it raised (\<open>None\<close> when it returned normally): a Python exception does not undo the
  mutations made before it. \<^verbatim>\<open>insert\<close>, \<^verbatim>\<open>append\<close>, the three integration steps,
  \<^verbatim>\<open>__update_integral\<close> and \<^verbatim>\<open>integral\<close> call each other along the chain of cached
  integrals; \<open>integral_loop\<close> is the \<^verbatim>\<open>for\<close> loop of \<^verbatim>\<open>integral\<close> over the
  differences of consecutive x-values. The first argument of an integration step is the
  integral function \<^verbatim>\<open>f\<close> it appends to, the second the derivative it reads.
\<close>

text \<open>\<^verbatim>\<open>Function.seek\<close>.\<close>

definition Function_seek :: "Function \<Rightarrow> int \<Rightarrow> error + point" where
  "Function_seek f index = py_index (points f) index"

text \<open>The loop of \<^verbatim>\<open>_integrate_trapezoidal\<close> over \<^verbatim>\<open>range(splits)\<close>.\<close>

fun trapezoidal_area :: "Function \<Rightarrow> real \<Rightarrow> real \<Rightarrow> nat \<Rightarrow> real \<Rightarrow> error + real" where
  "trapezoidal_area derivative width x 0 area = Inr area"
| "trapezoidal_area derivative width x (Suc n) area =
     (case Function_call derivative (x - width) of
        Inl e \<Rightarrow> Inl e
      | Inr l \<Rightarrow>
          (case Function_call derivative x of
             Inl e \<Rightarrow> Inl e
           | Inr r \<Rightarrow> trapezoidal_area derivative width (x - width) n (area + (width / 2) * (l + r))))"

text \<open>The length of the chain of cached integrals below a function: the measure of the
  recursion.\<close>

fun depth :: "Function \<Rightarrow> nat" where
  "depth (Function ps None m) = 0"
| "depth (Function ps (Some g) m) = Suc (depth g)"

function Function_insert :: "Function \<Rightarrow> real \<Rightarrow> real \<Rightarrow> bool \<Rightarrow> error option \<times> Function"
  and Function_append :: "Function \<Rightarrow> real \<Rightarrow> real \<Rightarrow> error option \<times> Function"
  and integrate_trapezoidal :: "Function \<Rightarrow> Function \<Rightarrow> real \<Rightarrow> nat \<Rightarrow> error option \<times> Function"
  and integrate_euler :: "Function \<Rightarrow> Function \<Rightarrow> real \<Rightarrow> error option \<times> Function"
  and integrate_rk4 :: "Function \<Rightarrow> Function \<Rightarrow> real \<Rightarrow> error option \<times> Function"
  and update_integral :: "Function \<Rightarrow> error option \<times> Function"
  and Function_integral :: "Function \<Rightarrow> IntegrationMethod option \<Rightarrow> real \<Rightarrow> real \<Rightarrow> error option \<times> Function"
  and integral_loop :: "IntegrationMethod option \<Rightarrow> Function \<Rightarrow> Function \<Rightarrow> real list \<Rightarrow> error option \<times> Function"
where
  "Function_insert f x y check =
     (if check \<and> x \<in> set (map fst (points f)) then (Some ValueError_duplicate, f)
      else
        (case search_best_index (points f) x 0 (length (points f)) of
           Inl e \<Rightarrow> (Some e, f)
         | Inr index \<Rightarrow>
             let f1 = Function (list_insert (points f) index (x, y)) (integral f) (integration_method f) in
             (case integral f1 of
                None \<Rightarrow> (None, f1)
              | Some g \<Rightarrow>
                  if int index = int (length (points f1)) - 1 then update_integral f1
                  else
                    (case py_index (points g) 0 of
                       Inl e \<Rightarrow> (Some e, f1)
                     | Inr p0 \<Rightarrow> Function_integral f1 (integration_method g) (fst p0) (snd p0)))))"
| "Function_append f dx dy =
     (case py_index (points f) (- 1) of
        Inl e \<Rightarrow> (Some e, f)
      | Inr p \<Rightarrow> Function_insert f (fst p + dx) (snd p + dy) False)"
| "integrate_trapezoidal f derivative dx splits =
     (case py_div dx (real splits) of
        Inl e \<Rightarrow> (Some e, f)
      | Inr width \<Rightarrow>
          (case Function_seek derivative (- 1) of
             Inl e \<Rightarrow> (Some e, f)
           | Inr p \<Rightarrow>
               (case trapezoidal_area derivative width (fst p) splits 0 of
                  Inl e \<Rightarrow> (Some e, f)
                | Inr area \<Rightarrow> Function_append f dx area)))"
| "integrate_euler f derivative dx =
     (case Function_seek f (- 1) of
        Inl e \<Rightarrow> (Some e, f)
      | Inr p \<Rightarrow>
          (case Function_call derivative (fst p) of
             Inl e \<Rightarrow> (Some e, f)
           | Inr v \<Rightarrow> Function_append f dx (dx * v)))"
| "integrate_rk4 f derivative dx =
     (case Function_seek derivative (- 1) of
        Inl e \<Rightarrow> (Some e, f)
      | Inr p \<Rightarrow>
          (case Function_call derivative (fst p) of
             Inl e \<Rightarrow> (Some e, f)
           | Inr k1 \<Rightarrow>
               (case Function_call derivative (fst p + dx / 2) of
                  Inl e \<Rightarrow> (Some e, f)
                | Inr v \<Rightarrow>
                    (case Function_call derivative (fst p + dx) of
                       Inl e \<Rightarrow> (Some e, f)
                     | Inr k4 \<Rightarrow> Function_append f dx (dx / 6 * (k1 + 2 * (2 * v) + k4))))))"
| "update_integral f =
     (case integral f of
        None \<Rightarrow> (Some AttributeError, f)
      | Some g \<Rightarrow>
          let dx = (if length (points f) > 1
                    then fst (last (points f)) - fst (points f ! (length (points f) - 2)) else 0)
          in
          (case integration_method g of
             Some TRAPEZOIDAL \<Rightarrow>
               (case integrate_trapezoidal g f dx 1 of
                  (r, g') \<Rightarrow> (r, Function (points f) (Some g') (integration_method f)))
           | Some EULER \<Rightarrow>
               (case integrate_euler g f dx of
                  (r, g') \<Rightarrow> (r, Function (points f) (Some g') (integration_method f)))
           | Some RK4 \<Rightarrow>
               (case integrate_rk4 g f dx of
                  (r, g') \<Rightarrow> (r, Function (points f) (Some g') (integration_method f)))
           | None \<Rightarrow> (None, f)))"
| "Function_integral f meth x_i y_i =
     (case Function_insert (Function [] None meth) x_i y_i False of
        (Some e, g) \<Rightarrow> (Some e, Function (points f) (Some g) (integration_method f))
      | (None, g) \<Rightarrow>
          (case integral_loop meth g f (map2 (\<lambda>p q. fst q - fst p) (points f) (tl (points f))) of
             (r, g') \<Rightarrow> (r, Function (points f) (Some g') (integration_method f))))"
| "integral_loop meth g f [] = (None, g)"
| "integral_loop meth g f (dx # dxs) =
     (case meth of
        Some TRAPEZOIDAL \<Rightarrow>
          (case integrate_trapezoidal g f dx 1 of
             (Some e, g') \<Rightarrow> (Some e, g')
           | (None, g') \<Rightarrow> integral_loop meth g' f dxs)
      | Some EULER \<Rightarrow>
          (case integrate_euler g f dx of
             (Some e, g') \<Rightarrow> (Some e, g')
           | (None, g') \<Rightarrow> integral_loop meth g' f dxs)
      | Some RK4 \<Rightarrow>
          (case integrate_rk4 g f dx of
             (Some e, g') \<Rightarrow> (Some e, g')
           | (None, g') \<Rightarrow> integral_loop meth g' f dxs)
      | None \<Rightarrow> integral_loop meth g f dxs)"
  by pat_completeness auto


lemma depth_Some: "integral f = Some g \<Longrightarrow> depth f = Suc (depth g)"
  by (cases f) simp

lemma depth_None: "integral f = None \<Longrightarrow> depth f = 0"
  by (cases f) simp

lemma depth_Function_Some [simp]: "depth (Function ps (Some g) m) = Suc (depth g)"
  by simp

lemma depth_results:
  "Function_insert_Function_append_integrate_trapezoidal_integrate_euler_integrate_rk4_update_integral_Function_integral_integral_loop_dom
     (Inl (Inl (Inl (f, x, y, c)))) \<Longrightarrow> depth (snd (Function_insert f x y c)) \<le> depth f"
  "Function_insert_Function_append_integrate_trapezoidal_integrate_euler_integrate_rk4_update_integral_Function_integral_integral_loop_dom
     (Inl (Inl (Inr (f, dx, dy)))) \<Longrightarrow> depth (snd (Function_append f dx dy)) \<le> depth f"
  "Function_insert_Function_append_integrate_trapezoidal_integrate_euler_integrate_rk4_update_integral_Function_integral_integral_loop_dom
     (Inl (Inr (Inl (f, d, dx, n)))) \<Longrightarrow> depth (snd (integrate_trapezoidal f d dx n)) \<le> depth f"
  "Function_insert_Function_append_integrate_trapezoidal_integrate_euler_integrate_rk4_update_integral_Function_integral_integral_loop_dom
     (Inl (Inr (Inr (f, d, dx)))) \<Longrightarrow> depth (snd (integrate_euler f d dx)) \<le> depth f"
  "Function_insert_Function_append_integrate_trapezoidal_integrate_euler_integrate_rk4_update_integral_Function_integral_integral_loop_dom
     (Inr (Inl (Inl (f, d, dx)))) \<Longrightarrow> depth (snd (integrate_rk4 f d dx)) \<le> depth f"
  "Function_insert_Function_append_integrate_trapezoidal_integrate_euler_integrate_rk4_update_integral_Function_integral_integral_loop_dom
     (Inr (Inl (Inr f))) \<Longrightarrow> depth (snd (update_integral f)) \<le> depth f"
  "Function_insert_Function_append_integrate_trapezoidal_integrate_euler_integrate_rk4_update_integral_Function_integral_integral_loop_dom
     (Inr (Inr (Inl (f, m, x, y)))) \<Longrightarrow> depth (snd (Function_integral f m x y)) - 1 = 0"
  "Function_insert_Function_append_integrate_trapezoidal_integrate_euler_integrate_rk4_update_integral_Function_integral_integral_loop_dom
     (Inr (Inr (Inr (m, g, f, dxs)))) \<Longrightarrow> depth (snd (integral_loop m g f dxs)) \<le> depth g"
proof (induct rule: Function_insert_Function_append_integrate_trapezoidal_integrate_euler_integrate_rk4_update_integral_Function_integral_integral_loop.pinduct)
  case (1 f x y check)
  then show ?case
    apply (auto simp: Function_insert.psimps Let_def depth_Some split: sum.splits option.splits)
     apply (metis (no_types, lifting) Suc_le_mono le0 le_trans)+
    done
next
  case (2 f dx dy)
  then show ?case by (auto simp: Function_append.psimps split: sum.splits)
next
  case (3 f derivative dx splits)
  then show ?case by (auto simp: integrate_trapezoidal.psimps split: sum.splits)
next
  case (4 f derivative dx)
  then show ?case by (auto simp: integrate_euler.psimps split: sum.splits)
next
  case (5 f derivative dx)
  then show ?case by (auto simp: integrate_rk4.psimps split: sum.splits)
next
  case (6 f)
  then show ?case
    by (auto simp: update_integral.psimps Let_def depth_Some split_def
        split: option.splits IntegrationMethod.splits)
next
  case (7 f meth x_i y_i)
  note dom = "7.hyps"(1)
  obtain r0 g0 where r0: "Function_insert (Function [] None meth) x_i y_i False = (r0, g0)"
    by (cases "Function_insert (Function [] None meth) x_i y_i False")
  have g0: "depth g0 = 0" using "7.hyps"(2) r0 by simp
  show ?case
  proof (cases r0)
    case (Some e)
    then show ?thesis using dom r0 g0 by (simp add: Function_integral.psimps)
  next
    case None
    let ?dxs = "map2 (\<lambda>p q. fst q - fst p) (points f) (tl (points f))"
    obtain r g' where r: "integral_loop meth g0 f ?dxs = (r, g')"
      by (cases "integral_loop meth g0 f ?dxs")
    have "depth (snd (integral_loop meth g0 f ?dxs)) \<le> depth g0"
      using "7.hyps"(3)[of r0 g0] r0 None by simp
    then have "depth g' = 0" using r g0 by simp
    then show ?thesis using dom r0 None r by (simp add: Function_integral.psimps)
  qed
next
  case (8 meth g f)
  then show ?case by (simp add: integral_loop.psimps)
next
  case (9 meth g f dx dxs)
  note dom = "9.hyps"(1)
  show ?case
  proof (cases meth)
    case None
    then show ?thesis using dom "9.hyps"(2) by (simp add: integral_loop.psimps)
  next
    case (Some m)
    show ?thesis
    proof (cases m)
      case EULER
      obtain r g' where r: "integrate_euler g f dx = (r, g')" by (cases "integrate_euler g f dx")
      have le: "depth g' \<le> depth g" using "9.hyps"(3)[OF Some EULER] r by simp
      show ?thesis
      proof (cases r)
        case None
        have "depth (snd (integral_loop meth g' f dxs)) \<le> depth g'"
          using "9.hyps"(4)[OF Some EULER, of r g'] r None by simp
        then show ?thesis using dom Some EULER r None le by (simp add: integral_loop.psimps)
      next
        case (Some e)
        then show ?thesis using dom \<open>meth = Some m\<close> EULER r le by (simp add: integral_loop.psimps)
      qed
    next
      case TRAPEZOIDAL
      obtain r g' where r: "integrate_trapezoidal g f dx 1 = (r, g')"
        by (cases "integrate_trapezoidal g f dx 1")
      have le: "depth g' \<le> depth g" using "9.hyps"(5)[OF Some TRAPEZOIDAL] r by simp
      show ?thesis
      proof (cases r)
        case None
        have "depth (snd (integral_loop meth g' f dxs)) \<le> depth g'"
          using "9.hyps"(6)[OF Some TRAPEZOIDAL, of r g'] r None by simp
        then show ?thesis using dom Some TRAPEZOIDAL r None le by (simp add: integral_loop.psimps)
      next
        case (Some e)
        then show ?thesis using dom \<open>meth = Some m\<close> TRAPEZOIDAL r le
          by (simp add: integral_loop.psimps)
      qed
    next
      case RK4
      obtain r g' where r: "integrate_rk4 g f dx = (r, g')" by (cases "integrate_rk4 g f dx")
      have le: "depth g' \<le> depth g" using "9.hyps"(7)[OF Some RK4] r by simp
      show ?thesis
      proof (cases r)
        case None
        have "depth (snd (integral_loop meth g' f dxs)) \<le> depth g'"
          using "9.hyps"(8)[OF Some RK4, of r g'] r None by simp
        then show ?thesis using dom Some RK4 r None le by (simp add: integral_loop.psimps)
      next
        case (Some e)
        then show ?thesis using dom \<open>meth = Some m\<close> RK4 r le by (simp add: integral_loop.psimps)
      qed
    qed
  qed
qed

termination Function_insert
  apply (relation "inv_image (less_than <*lex*> less_than) (\<lambda>a. case a of
            Inl (Inl (Inl (f, x, y, c))) \<Rightarrow> (10 * depth f + 5, 0)
          | Inl (Inl (Inr (f, dx, dy))) \<Rightarrow> (10 * depth f + 6, 0)
          | Inl (Inr (Inl (f, d, dx, n))) \<Rightarrow> (10 * depth f + 7, 0)
          | Inl (Inr (Inr (f, d, dx))) \<Rightarrow> (10 * depth f + 7, 0)
          | Inr (Inl (Inl (f, d, dx))) \<Rightarrow> (10 * depth f + 7, 0)
          | Inr (Inl (Inr f)) \<Rightarrow> (10 * depth f + 4, 0)
          | Inr (Inr (Inl (f, m, x, y))) \<Rightarrow> (9, 0)
          | Inr (Inr (Inr (m, g, f, dxs))) \<Rightarrow> (10 * depth g + 8, length dxs))")
  apply (simp_all add: depth_Some)
  subgoal by (intro wf_inv_image wf_lex_prod wf_less_than)
  subgoal for meth x_i y_i x y
    using depth_results(1)[of "Function [] None meth" x_i y_i False] by (metis depth.simps(1) le_zero_eq snd_conv)
  subgoal for meth g f dx x2 x y
    using depth_results(4)[of g f dx] by (metis le_neq_implies_less snd_conv)
  subgoal for meth g f dx x2 x y
    using depth_results(3)[of g f dx "Suc 0"] by (metis le_neq_implies_less snd_conv)
  subgoal for meth g f dx x2 x y
    using depth_results(5)[of g f dx] by (metis le_neq_implies_less snd_conv)
  done

declare Function_insert.simps [simp del] Function_append.simps [simp del]
  integrate_trapezoidal.simps [simp del] integrate_euler.simps [simp del]
  integrate_rk4.simps [simp del] update_integral.simps [simp del]
  Function_integral.simps [simp del] integral_loop.simps [simp del]

text \<open>\<^verbatim>\<open>Function.from_iter\<close>: the loop, then the static meth.\<close>

fun from_iter_loop :: "Function \<Rightarrow> point list \<Rightarrow> error option \<times> Function" where
  "from_iter_loop output [] = (None, output)"
| "from_iter_loop output (p # rest) =
     (case Function_insert output (fst p) (snd p) False of
        (Some e, output') \<Rightarrow> (Some e, output')
      | (None, output') \<Rightarrow> from_iter_loop output' rest)"

definition Function_from_iter :: "point list \<Rightarrow> error option \<times> Function" where
  "Function_from_iter iterable = from_iter_loop Function_init iterable"

text \<open>The statement of uniform spacing: each point of the list is its predecessor moved
  by \<open>(dx, dy)\<close>.\<close>

fun steps_by :: "real \<Rightarrow> real \<Rightarrow> point list \<Rightarrow> bool" where
  "steps_by dx dy (p # q # rest) =
     (fst q = fst p + dx \<and> snd q = snd p + dy \<and> steps_by dx dy (q # rest))"
| "steps_by dx dy [p] = True"
| "steps_by dx dy [] = True"

section \<open>Binary search and evaluation\<close>

lemma py_index_nat: "i < length xs \<Longrightarrow> py_index xs (int i) = Inr (xs ! i)"
  by (simp add: py_index_def)

lemma search_best_index_step:
  assumes "start < stop" "stop \<le> length ps"
  shows "search_best_index ps x start stop =
     (if x > fst (ps ! (start + (stop - start) div 2))
        then search_best_index ps x (start + (stop - start) div 2 + 1) stop
      else if x < fst (ps ! (start + (stop - start) div 2))
        then search_best_index ps x start (start + (stop - start) div 2)
      else Inr (start + (stop - start) div 2))"
proof -
  have "start + (stop - start) div 2 < length ps" using assms by linarith
  then have "py_index ps (int (start + (stop - start) div 2)) = Inr (ps ! (start + (stop - start) div 2))"
    by (rule py_index_nat)
  then show ?thesis using assms(1)
    by (subst search_best_index.simps) (simp add: Let_def)
qed

lemma search_best_index_sorted:
  assumes "sorted (map fst ps)"
  shows "start \<le> stop \<Longrightarrow> stop \<le> length ps \<Longrightarrow>
   \<forall>j<start. fst (ps ! j) < x \<Longrightarrow>
   \<forall>j. stop \<le> j \<and> j < length ps \<longrightarrow> x < fst (ps ! j) \<Longrightarrow>
   \<exists>i. search_best_index ps x start stop = Inr i \<and> start \<le> i \<and> i \<le> stop \<and>
       ((i < stop \<and> fst (ps ! i) = x) \<or>
        ((\<forall>j<i. fst (ps ! j) < x) \<and> (\<forall>j. i \<le> j \<and> j < length ps \<longrightarrow> x < fst (ps ! j))))"
proof (induction "stop - start" arbitrary: start stop rule: less_induct)
  case less
  show ?case
  proof (cases "start = stop")
    case True
    then show ?thesis using less.prems by (simp add: search_best_index.simps)
  next
    case False
    define offset where "offset = start + (stop - start) div 2"
    from False less.prems have lt: "start < stop" by simp
    then have off: "start \<le> offset" "offset < stop" by (auto simp: offset_def)
    have mono: "\<And>i j. i \<le> j \<Longrightarrow> j < length ps \<Longrightarrow> fst (ps ! i) \<le> fst (ps ! j)"
      using assms by (simp add: sorted_iff_nth_mono)
    note step = search_best_index_step[OF lt less.prems(2), of x, folded offset_def]
    consider (gt) "x > fst (ps ! offset)" | (lt) "x < fst (ps ! offset)" | (eq) "x = fst (ps ! offset)"
      by linarith
    then show ?thesis
    proof cases
      case gt
      have below: "\<forall>j<offset + 1. fst (ps ! j) < x"
      proof (intro allI impI)
        fix j assume "j < offset + 1"
        then have "fst (ps ! j) \<le> fst (ps ! offset)" using mono off less.prems(2) by simp
        then show "fst (ps ! j) < x" using gt by simp
      qed
      have "\<exists>i. search_best_index ps x (offset + 1) stop = Inr i \<and> offset + 1 \<le> i \<and> i \<le> stop \<and>
         ((i < stop \<and> fst (ps ! i) = x) \<or>
          ((\<forall>j<i. fst (ps ! j) < x) \<and> (\<forall>j. i \<le> j \<and> j < length ps \<longrightarrow> x < fst (ps ! j))))"
        using less.hyps[of stop "offset + 1"] off less.prems below by simp
      then show ?thesis using gt off step by auto
    next
      case lt
      have above: "\<forall>j. offset \<le> j \<and> j < length ps \<longrightarrow> x < fst (ps ! j)"
      proof (intro allI impI)
        fix j assume "offset \<le> j \<and> j < length ps"
        then have "fst (ps ! offset) \<le> fst (ps ! j)" using mono by simp
        then show "x < fst (ps ! j)" using lt by simp
      qed
      have "\<exists>i. search_best_index ps x start offset = Inr i \<and> start \<le> i \<and> i \<le> offset \<and>
         ((i < offset \<and> fst (ps ! i) = x) \<or>
          ((\<forall>j<i. fst (ps ! j) < x) \<and> (\<forall>j. i \<le> j \<and> j < length ps \<longrightarrow> x < fst (ps ! j))))"
        using less.hyps[of offset start] off less.prems above \<open>start < stop\<close> by simp
      then show ?thesis using lt off step by auto
    next
      case eq
      then show ?thesis using off step by auto
    qed
  qed
qed

lemma search_best_index_total:
  "\<exists>i. search_best_index ps x 0 (length ps) = Inr i \<and> i \<le> length ps"
proof -
  have "0 \<le> length ps \<Longrightarrow> start \<le> stop \<Longrightarrow> stop \<le> length ps \<Longrightarrow>
     \<exists>i. search_best_index ps x start stop = Inr i \<and> start \<le> i \<and> i \<le> stop" for start stop
  proof (induction "stop - start" arbitrary: start stop rule: less_induct)
    case less
    show ?case
    proof (cases "start = stop")
      case True
      then show ?thesis by (simp add: search_best_index.simps)
    next
      case False
      with less.prems have lt: "start < stop" by simp
      define offset where "offset = start + (stop - start) div 2"
      from lt have off: "start \<le> offset" "offset < stop" by (auto simp: offset_def)
      note step = search_best_index_step[OF lt less.prems(3), of x, folded offset_def]
      have up: "\<exists>i. search_best_index ps x (offset + 1) stop = Inr i \<and> offset + 1 \<le> i \<and> i \<le> stop"
        using less.hyps[of stop "offset + 1"] off less.prems by simp
      have down: "\<exists>i. search_best_index ps x start offset = Inr i \<and> start \<le> i \<and> i \<le> offset"
        using less.hyps[of offset start] off less.prems lt by simp
      show ?thesis using step up down off by auto
    qed
  qed
  from this[of 0 "length ps"] show ?thesis by simp
qed

lemma search_best_index_found:
  assumes "sorted_wrt (<) (map fst ps)" "k < length ps"
  shows "search_best_index ps (fst (ps ! k)) 0 (length ps) = Inr k"
proof -
  have srt: "sorted (map fst ps)" using assms(1) by (simp add: strict_sorted_iff)
  have strict: "\<And>i j. i < j \<Longrightarrow> j < length ps \<Longrightarrow> fst (ps ! i) < fst (ps ! j)"
    using assms(1) by (simp add: sorted_wrt_iff_nth_less)
  obtain i where i: "search_best_index ps (fst (ps ! k)) 0 (length ps) = Inr i" "i \<le> length ps"
    and alt: "(i < length ps \<and> fst (ps ! i) = fst (ps ! k)) \<or>
        ((\<forall>j<i. fst (ps ! j) < fst (ps ! k)) \<and> (\<forall>j. i \<le> j \<and> j < length ps \<longrightarrow> fst (ps ! k) < fst (ps ! j)))"
    using search_best_index_sorted[OF srt, of 0 "length ps" "fst (ps ! k)"] by auto
  from alt have "i < length ps \<and> fst (ps ! i) = fst (ps ! k)"
  proof
    assume "(\<forall>j<i. fst (ps ! j) < fst (ps ! k)) \<and> (\<forall>j. i \<le> j \<and> j < length ps \<longrightarrow> fst (ps ! k) < fst (ps ! j))"
    then have a: "\<forall>j<i. fst (ps ! j) < fst (ps ! k)"
      and b: "\<forall>j. i \<le> j \<and> j < length ps \<longrightarrow> fst (ps ! k) < fst (ps ! j)" by simp_all
    have False
    proof (cases "k < i")
      case True
      with a show False by fastforce
    next
      case False
      then have "i \<le> k \<and> k < length ps" using assms(2) by simp
      with b have "fst (ps ! k) < fst (ps ! k)" by blast
      then show False by simp
    qed
    then show ?thesis ..
  qed simp
  then have "i = k" using strict[of i k] strict[of k i] assms(2)
    by (metis linorder_neqE_nat order_less_irrefl)
  with i show ?thesis by simp
qed

lemma py_index_minus_one:
  "xs \<noteq> [] \<Longrightarrow> py_index xs (int 0 - 1) = Inr (last xs)"
  by (cases xs rule: rev_cases) (simp_all add: py_index_def)

lemma py_index_pred:
  "0 < i \<Longrightarrow> i \<le> length xs \<Longrightarrow> py_index xs (int i - 1) = Inr (xs ! (i - 1))"
  by (auto simp add: py_index_def nat_diff_distrib)

lemma Function_call_index:
  assumes "2 \<le> length (points f)"
    and "(if x > fst (last (points f)) then Inr (length (points f) - 1)
          else if x < fst (points f ! 0) then Inr 1
          else search_best_index (points f) x 0 (length (points f))) = Inr index"
    and "0 < index" "index < length (points f)"
    and "fst (points f ! index) \<noteq> fst (points f ! (index - 1))"
  shows "Function_call f x =
     Inr ((snd (points f ! index) - snd (points f ! (index - 1))) /
          (fst (points f ! index) - fst (points f ! (index - 1))) *
          (x - fst (points f ! (index - 1))) + snd (points f ! (index - 1)))"
proof -
  have ne: "points f \<noteq> []" "length (points f) \<noteq> 1" using assms(1) by auto
  have a: "py_index (points f) (int index - 1) = Inr (points f ! (index - 1))"
    using assms(3,4) by (simp add: py_index_pred)
  have b: "py_index (points f) (int index) = Inr (points f ! index)"
    using assms(4) by (simp add: py_index_nat)
  show ?thesis
    unfolding Function_call_def Let_def using ne assms(5)
    by (simp only: assms(2) a b if_False sum.case py_div_def) simp
qed

text \<open>
  C1: for a function with at least two stored points, strictly increasing in x, the call
  at any stored x-value returns exactly the stored y-value, at every index, the first and
  the last included.
\<close>

theorem Function_call_stored:
  assumes "sorted_wrt (<) (map fst (points f))" "2 \<le> length (points f)" "k < length (points f)"
  shows "Function_call f (fst (points f ! k)) = Inr (snd (points f ! k))"
proof -
  let ?ps = "points f"
  let ?x = "fst (?ps ! k)"
  have strict: "\<And>i j. i < j \<Longrightarrow> j < length ?ps \<Longrightarrow> fst (?ps ! i) < fst (?ps ! j)"
    using assms(1) by (simp add: sorted_wrt_iff_nth_less)
  have ne: "?ps \<noteq> []" "length ?ps \<noteq> 1" using assms(2) by auto
  have last: "last ?ps = ?ps ! (length ?ps - 1)" using ne by (simp add: last_conv_nth)
  have "sorted (map fst ?ps)" using assms(1) by (simp add: strict_sorted_iff)
  then have mono: "\<And>i j. i \<le> j \<Longrightarrow> j < length ?ps \<Longrightarrow> fst (?ps ! i) \<le> fst (?ps ! j)"
    by (simp add: sorted_iff_nth_mono)
  have "k \<le> length ?ps - 1" "length ?ps - 1 < length ?ps" using assms(3) by simp_all
  then have "fst (?ps ! k) \<le> fst (?ps ! (length ?ps - 1))" by (rule mono)
  then have le_last: "\<not> ?x > fst (last ?ps)"
    unfolding last by simp
  have ge_first: "\<not> ?x < fst (?ps ! 0)"
    using mono[of 0 k] assms(3) by simp
  have idx: "search_best_index ?ps ?x 0 (length ?ps) = Inr k"
    using assms(1,3) by (rule search_best_index_found)
  show ?thesis
  proof (cases "k = 0")
    case False
    then have "fst (?ps ! k) \<noteq> fst (?ps ! (k - 1))"
      using strict[of "k - 1" k] assms(3) by simp
    then show ?thesis
      using Function_call_index[of f ?x k] assms(2,3) False le_last ge_first idx by simp
  next
    case True
    have a: "py_index ?ps (int k - 1) = Inr (last ?ps)"
      using True ne py_index_minus_one[of ?ps] by simp
    have b: "py_index ?ps (int k) = Inr (?ps ! k)"
      using assms(3) by (simp add: py_index_nat)
    have "fst (?ps ! 0) < fst (last ?ps)"
      unfolding last using strict[of 0 "length ?ps - 1"] assms(2) by simp
    then have nz: "fst (?ps ! k) - fst (last ?ps) \<noteq> 0" using True by simp
    show ?thesis
      unfolding Function_call_def Let_def using ne le_last ge_first nz
      by (simp only: idx a b if_False sum.case py_div_def) simp
  qed
qed

lemma fst_nth_less:
  "sorted_wrt (<) (map fst ps) \<Longrightarrow> i < j \<Longrightarrow> j < length ps \<Longrightarrow> fst (ps ! i) < fst (ps ! j)"
  by (simp add: sorted_wrt_iff_nth_less)

lemma fst_nth_mono:
  "sorted (map fst ps) \<Longrightarrow> i \<le> j \<Longrightarrow> j < length ps \<Longrightarrow> fst (ps ! i) \<le> fst (ps ! j)"
  by (simp add: sorted_iff_nth_mono)

text \<open>
  C9: calling a function with no stored points raises the "no stored points" ValueError;
  with exactly one stored point it returns that point's y for every x; with at least two
  points, at an x above every stored x it returns the value of the line through the last
  two points, and at an x below every stored x the value of the line through the first two
  points, where these two points differ in x (as they do when the stored x-values are
  strictly increasing).
\<close>

theorem Function_call_cases:
  "(points f0 = [] \<longrightarrow> Function_call f0 x0 = Inl ValueError_no_points) \<and>
   (points f1 = [p] \<longrightarrow> Function_call f1 x1 = Inr (snd p)) \<and>
   (2 \<le> length (points f) \<and> (\<forall>q\<in>set (points f). fst q < x) \<and>
    fst (points f ! (length (points f) - 1)) \<noteq> fst (points f ! (length (points f) - 2)) \<longrightarrow>
      Function_call f x =
        Inr ((snd (points f ! (length (points f) - 1)) - snd (points f ! (length (points f) - 2))) /
             (fst (points f ! (length (points f) - 1)) - fst (points f ! (length (points f) - 2))) *
             (x - fst (points f ! (length (points f) - 2))) + snd (points f ! (length (points f) - 2)))) \<and>
   (2 \<le> length (points g) \<and> (\<forall>q\<in>set (points g). z < fst q) \<and>
    fst (points g ! 1) \<noteq> fst (points g ! 0) \<longrightarrow>
      Function_call g z =
        Inr ((snd (points g ! 1) - snd (points g ! 0)) / (fst (points g ! 1) - fst (points g ! 0)) *
             (z - fst (points g ! 0)) + snd (points g ! 0)))"
proof (intro conjI impI)
  assume "points f0 = []"
  then show "Function_call f0 x0 = Inl ValueError_no_points"
    by (simp add: Function_call_def)
next
  assume "points f1 = [p]"
  then show "Function_call f1 x1 = Inr (snd p)"
    by (simp add: Function_call_def)
next
  assume h: "2 \<le> length (points f) \<and> (\<forall>q\<in>set (points f). fst q < x) \<and>
    fst (points f ! (length (points f) - 1)) \<noteq> fst (points f ! (length (points f) - 2))"
  let ?n = "length (points f)"
  have ne0: "points f \<noteq> []" using h by auto
  then have "last (points f) \<in> set (points f)" by simp
  then have above: "fst (last (points f)) < x" using h by blast
  have ne: "fst (points f ! (?n - 1)) \<noteq> fst (points f ! (?n - 1 - 1))"
    using h by (simp add: numeral_2_eq_2)
  have "Function_call f x =
     Inr ((snd (points f ! (?n - 1)) - snd (points f ! (?n - 1 - 1))) /
          (fst (points f ! (?n - 1)) - fst (points f ! (?n - 1 - 1))) *
          (x - fst (points f ! (?n - 1 - 1))) + snd (points f ! (?n - 1 - 1)))"
    using h ne above by (intro Function_call_index) simp_all
  then show "Function_call f x =
        Inr ((snd (points f ! (?n - 1)) - snd (points f ! (?n - 2))) /
             (fst (points f ! (?n - 1)) - fst (points f ! (?n - 2))) *
             (x - fst (points f ! (?n - 2))) + snd (points f ! (?n - 2)))"
    by (simp add: numeral_2_eq_2)
next
  assume h: "2 \<le> length (points g) \<and> (\<forall>q\<in>set (points g). z < fst q) \<and>
    fst (points g ! 1) \<noteq> fst (points g ! 0)"
  have ne0: "points g \<noteq> []" using h by auto
  then have "last (points g) \<in> set (points g)" "points g ! 0 \<in> set (points g)" by simp_all
  then have le: "\<not> fst (last (points g)) < z" and below: "z < fst (points g ! 0)"
    using h by fastforce+
  have ne: "fst (points g ! 1) \<noteq> fst (points g ! (1 - 1))" using h by simp
  have "Function_call g z =
     Inr ((snd (points g ! 1) - snd (points g ! (1 - 1))) /
          (fst (points g ! 1) - fst (points g ! (1 - 1))) *
          (z - fst (points g ! (1 - 1))) + snd (points g ! (1 - 1)))"
    using h ne le below by (intro Function_call_index) simp_all
  then show "Function_call g z =
        Inr ((snd (points g ! 1) - snd (points g ! 0)) / (fst (points g ! 1) - fst (points g ! 0)) *
             (z - fst (points g ! 0)) + snd (points g ! 0))"
    by simp
qed

theorem Function_call_cases_witness:
  "Function_call (Function [] None None) 7 = Inl ValueError_no_points \<and>
   Function_call (Function [(1, 2)] None None) 100 = Inr 2 \<and>
   Function_call (Function [(0, 0), (1, 2), (2, 6)] None None) 3 = Inr 10 \<and>
   Function_call (Function [(0, 0), (1, 2), (2, 6)] None None) (- 1) = Inr (- 2)"
  using Function_call_cases [of "Function [] None None" 7 "Function [(1, 2)] None None" "(1, 2)" 100
      "Function [(0, 0), (1, 2), (2, 6)] None None" 3 "Function [(0, 0), (1, 2), (2, 6)] None None" "- 1"]
  by simp

theorem Function_call_stored_witness:
  "Function_call (Function [(0, 0), (1, 2), (2, 6)] None None) 0 = Inr 0 \<and>
   Function_call (Function [(0, 0), (1, 2), (2, 6)] None None) 1 = Inr 2 \<and>
   Function_call (Function [(0, 0), (1, 2), (2, 6)] None None) 2 = Inr 6"
  using Function_call_stored [of "Function [(0, 0), (1, 2), (2, 6)] None None" 0]
    Function_call_stored [of "Function [(0, 0), (1, 2), (2, 6)] None None" 1]
    Function_call_stored [of "Function [(0, 0), (1, 2), (2, 6)] None None" 2]
  by simp

section \<open>Insertion keeps the points ordered\<close>

lemma set_take_nth: "a \<in> set (take i xs) \<Longrightarrow> \<exists>j<i. j < length xs \<and> a = xs ! j"
  by (auto simp: in_set_conv_nth)

lemma set_drop_nth: "b \<in> set (drop i xs) \<Longrightarrow> \<exists>j. i \<le> j \<and> j < length xs \<and> b = xs ! j"
proof -
  assume "b \<in> set (drop i xs)"
  then obtain k where k: "k < length (drop i xs)" "b = drop i xs ! k"
    by (auto simp: in_set_conv_nth)
  then have "i \<le> i + k \<and> i + k < length xs \<and> b = xs ! (i + k)" by auto
  then show ?thesis by blast
qed

lemma sorted_insert_at:
  fixes xs :: "real list"
  assumes "sorted xs" "\<forall>j<i. j < length xs \<longrightarrow> xs ! j \<le> x"
    "\<forall>j. i \<le> j \<and> j < length xs \<longrightarrow> x \<le> xs ! j"
  shows "sorted (take i xs @ x # drop i xs)"
proof -
  have t: "\<forall>a\<in>set (take i xs). a \<le> x" using assms(2) set_take_nth[of _ i xs] by blast
  have d: "\<forall>b\<in>set (drop i xs). x \<le> b" using assms(3) set_drop_nth[of _ i xs] by blast
  have "\<forall>a\<in>set (take i xs). \<forall>b\<in>set (drop i xs). a \<le> b" using t d by fastforce
  then show ?thesis
    using assms(1) t d by (auto simp: sorted_append sorted_wrt_take sorted_wrt_drop)
qed

lemma strict_sorted_insert_at:
  fixes xs :: "real list"
  assumes "sorted_wrt (<) xs" "\<forall>j<i. j < length xs \<longrightarrow> xs ! j < x"
    "\<forall>j. i \<le> j \<and> j < length xs \<longrightarrow> x < xs ! j"
  shows "sorted_wrt (<) (take i xs @ x # drop i xs)"
proof -
  have t: "\<forall>a\<in>set (take i xs). a < x" using assms(2) set_take_nth[of _ i xs] by blast
  have d: "\<forall>b\<in>set (drop i xs). x < b" using assms(3) set_drop_nth[of _ i xs] by blast
  have "\<forall>a\<in>set (take i xs). \<forall>b\<in>set (drop i xs). a < b" using t d by fastforce
  then show ?thesis
    using assms(1) t d by (auto simp: sorted_wrt_append sorted_wrt_take sorted_wrt_drop)
qed

lemma map_fst_list_insert:
  "map fst (list_insert ps i (x, y)) = take i (map fst ps) @ x # drop i (map fst ps)"
  by (simp add: list_insert_def take_map drop_map)

lemma search_then_sorted:
  assumes "sorted (map fst ps)" "search_best_index ps x 0 (length ps) = Inr i"
  shows "sorted (map fst (list_insert ps i (x, y)))"
proof -
  have mono: "\<And>a b. a \<le> b \<Longrightarrow> b < length ps \<Longrightarrow> fst (ps ! a) \<le> fst (ps ! b)"
    using assms(1) by (simp add: sorted_iff_nth_mono)
  from search_best_index_sorted[OF assms(1), of 0 "length ps" x] assms(2)
  have i: "i \<le> length ps"
    and alt: "(i < length ps \<and> fst (ps ! i) = x) \<or>
       ((\<forall>j<i. fst (ps ! j) < x) \<and> (\<forall>j. i \<le> j \<and> j < length ps \<longrightarrow> x < fst (ps ! j)))"
    by auto
  have lo: "\<forall>j<i. j < length (map fst ps) \<longrightarrow> map fst ps ! j \<le> x"
  proof (intro allI impI)
    fix j assume j: "j < i" "j < length (map fst ps)"
    from alt show "map fst ps ! j \<le> x"
    proof
      assume "i < length ps \<and> fst (ps ! i) = x"
      then show ?thesis using mono[of j i] j by auto
    next
      assume "(\<forall>j<i. fst (ps ! j) < x) \<and> (\<forall>j. i \<le> j \<and> j < length ps \<longrightarrow> x < fst (ps ! j))"
      then have "fst (ps ! j) < x" using j by blast
      then show ?thesis using j by simp
    qed
  qed
  have hi: "\<forall>j. i \<le> j \<and> j < length (map fst ps) \<longrightarrow> x \<le> map fst ps ! j"
  proof (intro allI impI)
    fix j assume j: "i \<le> j \<and> j < length (map fst ps)"
    from alt show "x \<le> map fst ps ! j"
    proof
      assume "i < length ps \<and> fst (ps ! i) = x"
      then show ?thesis using mono[of i j] j by auto
    next
      assume "(\<forall>j<i. fst (ps ! j) < x) \<and> (\<forall>j. i \<le> j \<and> j < length ps \<longrightarrow> x < fst (ps ! j))"
      then have "x < fst (ps ! j)" using j by simp
      then show ?thesis using j by simp
    qed
  qed
  show ?thesis
    unfolding map_fst_list_insert using assms(1) lo hi by (rule sorted_insert_at)
qed

lemma search_then_strict_sorted:
  assumes "sorted_wrt (<) (map fst ps)" "x \<notin> fst ` set ps"
    "search_best_index ps x 0 (length ps) = Inr i"
  shows "sorted_wrt (<) (map fst (list_insert ps i (x, y)))"
proof -
  have srt: "sorted (map fst ps)" using assms(1) by (simp add: strict_sorted_iff)
  from search_best_index_sorted[OF srt, of 0 "length ps" x] assms(3)
  have alt: "(i < length ps \<and> fst (ps ! i) = x) \<or>
       ((\<forall>j<i. fst (ps ! j) < x) \<and> (\<forall>j. i \<le> j \<and> j < length ps \<longrightarrow> x < fst (ps ! j)))"
    by auto
  have "\<not> (i < length ps \<and> fst (ps ! i) = x)"
    using assms(2) by (metis image_eqI nth_mem)
  with alt have b: "\<forall>j<i. fst (ps ! j) < x" "\<forall>j. i \<le> j \<and> j < length ps \<longrightarrow> x < fst (ps ! j)"
    by blast+
  have lo: "\<forall>j<i. j < length (map fst ps) \<longrightarrow> map fst ps ! j < x" using b(1) by simp
  have hi: "\<forall>j. i \<le> j \<and> j < length (map fst ps) \<longrightarrow> x < map fst ps ! j" using b(2) by simp
  show ?thesis
    unfolding map_fst_list_insert using assms(1) lo hi by (rule strict_sorted_insert_at)
qed

lemma points_update_integral: "points (snd (update_integral f)) = points f"
  by (simp add: update_integral.simps Let_def split_def
      split: option.splits IntegrationMethod.splits)

lemma points_Function_integral: "points (snd (Function_integral f m x y)) = points f"
  by (simp add: Function_integral.simps split_def split: option.splits)

lemma points_Function_insert:
  assumes "search_best_index (points f) x 0 (length (points f)) = Inr i"
    and "\<not> (c \<and> x \<in> fst ` set (points f))"
  shows "points (snd (Function_insert f x y c)) = list_insert (points f) i (x, y)"
  using assms
  by (subst Function_insert.simps)
    (auto simp: Let_def points_update_integral points_Function_integral
      split: option.splits sum.splits)

lemma points_Function_insert_dup:
  "c \<and> x \<in> fst ` set (points f) \<Longrightarrow> Function_insert f x y c = (Some ValueError_duplicate, f)"
  by (subst Function_insert.simps) simp

lemma Function_insert_plain:
  assumes "integral f = None" "search_best_index (points f) x 0 (length (points f)) = Inr i"
  shows "Function_insert f x y False =
     (None, Function (list_insert (points f) i (x, y)) None (integration_method f))"
  using assms by (subst Function_insert.simps) (simp add: Let_def)

lemma search_best_index_obtain:
  obtains i where "search_best_index ps x 0 (length ps) = Inr i" "i \<le> length ps"
  using search_best_index_total[of ps x] by blast

lemma from_iter_loop_plain:
  "integral out = None \<Longrightarrow>
   fst (from_iter_loop out ps) = None \<and> integral (snd (from_iter_loop out ps)) = None \<and>
   integration_method (snd (from_iter_loop out ps)) = integration_method out \<and>
   set (points (snd (from_iter_loop out ps))) = set (points out) \<union> set ps \<and>
   length (points (snd (from_iter_loop out ps))) = length (points out) + length ps \<and>
   (sorted (map fst (points out)) \<longrightarrow> sorted (map fst (points (snd (from_iter_loop out ps))))) \<and>
   (sorted_wrt (<) (map fst (points out)) \<and> distinct (map fst ps) \<and>
      fst ` set (points out) \<inter> fst ` set ps = {} \<longrightarrow>
      sorted_wrt (<) (map fst (points (snd (from_iter_loop out ps)))))"
proof (induction ps arbitrary: out)
  case Nil
  then show ?case by simp
next
  case (Cons p ps)
  obtain i where i: "search_best_index (points out) (fst p) 0 (length (points out)) = Inr i"
    "i \<le> length (points out)"
    by (rule search_best_index_obtain)
  define out' where "out' = Function (list_insert (points out) i (fst p, snd p)) None (integration_method out)"
  have ins: "Function_insert out (fst p) (snd p) False = (None, out')"
    unfolding out'_def using Cons.prems i(1) by (rule Function_insert_plain)
  have step: "from_iter_loop out (p # ps) = from_iter_loop out' ps"
    by (simp add: ins)
  have none: "integral out' = None" by (simp add: out'_def)
  note IH = Cons.IH[OF none]
  have pts: "points out' = list_insert (points out) i p" by (simp add: out'_def)
  have set': "set (points out') = insert p (set (points out))"
    unfolding pts list_insert_def using set_append[of "take i (points out)" "drop i (points out)"]
    by (auto simp: append_take_drop_id)
  have len': "length (points out') = Suc (length (points out))"
    unfolding pts list_insert_def using i(2) by simp
  have s1: "sorted (map fst (points out)) \<Longrightarrow> sorted (map fst (points out'))"
    using search_then_sorted[of "points out" "fst p" i "snd p"] i(1) by (simp add: out'_def)
  have s2: "sorted_wrt (<) (map fst (points out)) \<Longrightarrow> fst p \<notin> fst ` set (points out) \<Longrightarrow>
      sorted_wrt (<) (map fst (points out'))"
    using search_then_strict_sorted[of "points out" "fst p" i "snd p"] i(1) by (simp add: out'_def)
  show ?case
    unfolding step using IH set' len' s1 s2 by (auto simp: out'_def)
qed

text \<open>
  C2: an insert keeps the stored points ordered by x (non-decreasing; strictly increasing
  when the inserted x is not yet stored) and places the new point at one position of the
  old list; \<^verbatim>\<open>from_iter\<close> returns normally, stores exactly the given points and leaves
  them sorted by x whatever the input order (strictly when the given x are distinct).
\<close>

theorem insert_keeps_points_ordered:
  "(sorted (map fst (points f)) \<longrightarrow>
      sorted (map fst (points (snd (Function_insert f x y check))))) \<and>
   (sorted_wrt (<) (map fst (points f)) \<and> x \<notin> fst ` set (points f) \<longrightarrow>
      sorted_wrt (<) (map fst (points (snd (Function_insert f x y check))))) \<and>
   (\<not> (check \<and> x \<in> fst ` set (points f)) \<longrightarrow>
      (\<exists>i\<le>length (points f).
         points (snd (Function_insert f x y check)) = list_insert (points f) i (x, y))) \<and>
   fst (Function_from_iter ps) = None \<and>
   set (points (snd (Function_from_iter ps))) = set ps \<and>
   length (points (snd (Function_from_iter ps))) = length ps \<and>
   sorted (map fst (points (snd (Function_from_iter ps)))) \<and>
   (distinct (map fst ps) \<longrightarrow> sorted_wrt (<) (map fst (points (snd (Function_from_iter ps)))))"
proof -
  obtain i where i: "search_best_index (points f) x 0 (length (points f)) = Inr i"
    "i \<le> length (points f)"
    by (rule search_best_index_obtain)
  have pts: "\<not> (check \<and> x \<in> fst ` set (points f)) \<Longrightarrow>
      points (snd (Function_insert f x y check)) = list_insert (points f) i (x, y)"
    using i(1) by (rule points_Function_insert)
  have dup: "check \<and> x \<in> fst ` set (points f) \<Longrightarrow>
      points (snd (Function_insert f x y check)) = points f"
    by (simp add: points_Function_insert_dup)
  have a: "sorted (map fst (points f)) \<longrightarrow>
      sorted (map fst (points (snd (Function_insert f x y check))))"
    using pts dup search_then_sorted[of "points f" x i y] i(1)
    by (cases "check \<and> x \<in> fst ` set (points f)") auto
  have b: "sorted_wrt (<) (map fst (points f)) \<and> x \<notin> fst ` set (points f) \<longrightarrow>
      sorted_wrt (<) (map fst (points (snd (Function_insert f x y check))))"
    using pts search_then_strict_sorted[of "points f" x i y] i(1) by auto
  have c: "\<not> (check \<and> x \<in> fst ` set (points f)) \<longrightarrow>
      (\<exists>i\<le>length (points f).
         points (snd (Function_insert f x y check)) = list_insert (points f) i (x, y))"
    using pts i(2) by blast
  have "integral Function_init = None" by (simp add: Function_init_def)
  from from_iter_loop_plain[OF this, of ps]
  have d: "fst (Function_from_iter ps) = None \<and>
   set (points (snd (Function_from_iter ps))) = set ps \<and>
   length (points (snd (Function_from_iter ps))) = length ps \<and>
   sorted (map fst (points (snd (Function_from_iter ps)))) \<and>
   (distinct (map fst ps) \<longrightarrow> sorted_wrt (<) (map fst (points (snd (Function_from_iter ps)))))"
    by (simp add: Function_from_iter_def Function_init_def)
  show ?thesis using a b c d by blast
qed

lemma search_eval1: "search_best_index [(0, 0)] 2 0 (length [(0::real, 0::real)]) = Inr 1"
  by (simp add: search_best_index.simps py_index_def)

text \<open>The spec's example: inserting (0,0), (2,4), (1,2) in that order.\<close>

lemma from_iter_example:
  "Function_from_iter [(0, 0), (2, 4), (1, 2)] = (None, Function [(0, 0), (1, 2), (2, 4)] None None)"
  by (simp add: Function_from_iter_def Function_init_def Function_insert.simps
      search_best_index.simps py_index_def list_insert_def Let_def)

theorem insert_keeps_points_ordered_witness:
  "sorted (map fst (points (snd (Function_insert (Function [(0, 0), (2, 4)] None None) 1 2 False)))) \<and>
   sorted_wrt (<) (map fst (points (snd (Function_insert (Function [(0, 0), (2, 4)] None None) 1 2 False)))) \<and>
   sorted_wrt (<) (map fst (points (snd (Function_from_iter [(0, 0), (2, 4), (1, 2)])))) \<and>
   set (points (snd (Function_from_iter [(0, 0), (2, 4), (1, 2)]))) = {(0, 0), (1, 2), (2, 4)}"
  using insert_keeps_points_ordered [of "Function [(0, 0), (2, 4)] None None" 1 2 False
      "[(0, 0), (2, 4), (1, 2)]"]
  by auto

section \<open>The integration steps\<close>

lemma py_index_last: "xs \<noteq> [] \<Longrightarrow> py_index xs (- 1) = Inr (last xs)"
  using py_index_minus_one[of xs] by simp

lemma search_best_index_beyond:
  assumes "sorted (map fst ps)" "\<forall>p\<in>set ps. fst p < x"
  shows "search_best_index ps x 0 (length ps) = Inr (length ps)"
proof -
  from search_best_index_sorted[OF assms(1), of 0 "length ps" x]
  obtain i where i: "search_best_index ps x 0 (length ps) = Inr i" "i \<le> length ps"
    and alt: "(i < length ps \<and> fst (ps ! i) = x) \<or>
       ((\<forall>j<i. fst (ps ! j) < x) \<and> (\<forall>j. i \<le> j \<and> j < length ps \<longrightarrow> x < fst (ps ! j)))"
    by auto
  have "\<not> i < length ps"
  proof
    assume lt: "i < length ps"
    then have "fst (ps ! i) < x" using assms(2) by simp
    with alt lt show False by auto
  qed
  with i show ?thesis by simp
qed

lemma list_insert_end: "list_insert xs (length xs) p = xs @ [p]"
  by (simp add: list_insert_def)

lemma Function_append_points:
  assumes "points f \<noteq> []"
  shows "\<exists>i\<le>length (points f). points (snd (Function_append f dx dy)) =
     list_insert (points f) i (fst (last (points f)) + dx, snd (last (points f)) + dy)"
proof -
  obtain i where i: "search_best_index (points f) (fst (last (points f)) + dx) 0 (length (points f)) = Inr i"
    "i \<le> length (points f)"
    by (rule search_best_index_obtain)
  have "points (snd (Function_append f dx dy)) =
     list_insert (points f) i (fst (last (points f)) + dx, snd (last (points f)) + dy)"
    using assms points_Function_insert[OF i(1), of False]
    by (simp add: Function_append.simps py_index_last)
  with i(2) show ?thesis by blast
qed

lemma Function_append_end:
  assumes "points f \<noteq> []" "sorted (map fst (points f))" "0 < dx"
  shows "points (snd (Function_append f dx dy)) =
     points f @ [(fst (last (points f)) + dx, snd (last (points f)) + dy)]"
proof -
  have "\<forall>p\<in>set (points f). fst p \<le> fst (last (points f))"
  proof
    fix p assume "p \<in> set (points f)"
    then obtain k where k: "k < length (points f)" "p = points f ! k"
      by (auto simp: in_set_conv_nth)
    have "fst (points f ! k) \<le> fst (points f ! (length (points f) - 1))"
      using assms(2) k(1) by (intro fst_nth_mono) simp_all
    then show "fst p \<le> fst (last (points f))" using k assms(1) by (simp add: last_conv_nth)
  qed
  then have "\<forall>p\<in>set (points f). fst p < fst (last (points f)) + dx" using assms(3) by fastforce
  then have "search_best_index (points f) (fst (last (points f)) + dx) 0 (length (points f))
      = Inr (length (points f))"
    using assms(2) by (intro search_best_index_beyond)
  from points_Function_insert[OF this, of False]
  show ?thesis using assms(1)
    by (simp add: Function_append.simps py_index_last list_insert_end)
qed

lemma Function_append_plain:
  assumes "integral f = None" "points f \<noteq> []"
  shows "fst (Function_append f dx dy) = None \<and> integral (snd (Function_append f dx dy)) = None
    \<and> integration_method (snd (Function_append f dx dy)) = integration_method f"
proof -
  obtain i where i: "search_best_index (points f) (fst (last (points f)) + dx) 0 (length (points f)) = Inr i"
    "i \<le> length (points f)"
    by (rule search_best_index_obtain)
  show ?thesis
    using assms Function_insert_plain[OF assms(1) i(1)]
    by (simp add: Function_append.simps py_index_last)
qed

lemma integrate_trapezoidal_unfold:
  assumes "points d \<noteq> []"
    "Function_call d (fst (last (points d)) - dx) = Inr l"
    "Function_call d (fst (last (points d))) = Inr r"
  shows "integrate_trapezoidal f d dx 1 = Function_append f dx (dx / 2 * (l + r))"
  using assms
  by (simp add: integrate_trapezoidal.simps py_div_def Function_seek_def py_index_last)

text \<open>
  C3: one trapezoidal step with a single sub-interval, on an integral function f with a
  stored point and a derivative d with a stored point, inserts into f exactly one point:
  its x is f's last stored x plus dx and its y is f's last stored y plus
  dx/2 * (d(x_last - dx) + d(x_last)), where x_last is the last stored x of the derivative
  d (not of f). When f is sorted by x and dx is positive the point goes to the end, and when
  f has no cached integral of its own the step returns normally.
\<close>

theorem integrate_trapezoidal_step:
  assumes "points d \<noteq> []" and "points f \<noteq> []"
    and "Function_call d (fst (last (points d)) - dx) = Inr l"
    and "Function_call d (fst (last (points d))) = Inr r"
  shows "(\<exists>i\<le>length (points f).
            points (snd (integrate_trapezoidal f d dx 1)) =
            list_insert (points f) i
              (fst (last (points f)) + dx, snd (last (points f)) + dx / 2 * (l + r))) \<and>
         (sorted (map fst (points f)) \<and> 0 < dx \<longrightarrow>
            points (snd (integrate_trapezoidal f d dx 1)) =
            points f @ [(fst (last (points f)) + dx, snd (last (points f)) + dx / 2 * (l + r))]) \<and>
         (integral f = None \<longrightarrow> fst (integrate_trapezoidal f d dx 1) = None)"
  unfolding integrate_trapezoidal_unfold[OF assms(1,3,4)]
  using Function_append_points[OF assms(2)] Function_append_end[OF assms(2)]
    Function_append_plain[OF _ assms(2)]
  by blast

lemma call_eval1: "Function_call (Function [(0, 1), (1, 3)] None None) 0 = Inr 1"
  by (simp add: Function_call_def search_best_index.simps py_index_def py_div_def)

lemma call_eval2: "Function_call (Function [(0, 1), (1, 3)] None None) 1 = Inr 3"
  by (simp add: Function_call_def search_best_index.simps py_index_def py_div_def)

theorem integrate_trapezoidal_step_witness:
  "points (snd (integrate_trapezoidal (Function [(5, 10)] None None)
      (Function [(0, 1), (1, 3)] None None) 1 1)) = [(5, 10), (6, 12)] \<and>
   fst (integrate_trapezoidal (Function [(5, 10)] None None)
      (Function [(0, 1), (1, 3)] None None) 1 1) = None"
  using integrate_trapezoidal_step [of "Function [(0, 1), (1, 3)] None None"
      "Function [(5, 10)] None None" 1 1 3] call_eval1 call_eval2
  by simp

lemma Function_call_at:
  assumes "2 \<le> length (points f)"
    and "(if x > fst (last (points f)) then Inr (length (points f) - 1)
          else if x < fst (points f ! 0) then Inr 1
          else search_best_index (points f) x 0 (length (points f))) = Inr index"
    and "index < length (points f)"
    and "a = (if index = 0 then last (points f) else points f ! (index - 1))"
    and "fst (points f ! index) \<noteq> fst a"
  shows "Function_call f x =
     Inr ((snd (points f ! index) - snd a) / (fst (points f ! index) - fst a) * (x - fst a) + snd a)"
proof -
  have ne: "points f \<noteq> []" "length (points f) \<noteq> 1" using assms(1) by auto
  have a: "py_index (points f) (int index - 1) = Inr a"
  proof (cases "index = 0")
    case True
    then show ?thesis using ne assms(4) py_index_minus_one[of "points f"] by simp
  next
    case False
    then show ?thesis using assms(3,4) by (simp add: py_index_pred)
  qed
  have b: "py_index (points f) (int index) = Inr (points f ! index)"
    using assms(3) by (simp add: py_index_nat)
  show ?thesis
    unfolding Function_call_def Let_def using ne assms(5)
    by (simp only: assms(2) a b if_False sum.case py_div_def) simp
qed

lemma Function_call_two_points:
  assumes "sorted_wrt (<) (map fst (points f))" "2 \<le> length (points f)"
  shows "\<exists>a b. a \<in> set (points f) \<and> b \<in> set (points f) \<and> fst b \<noteq> fst a \<and>
     Function_call f x = Inr ((snd b - snd a) / (fst b - fst a) * (x - fst a) + snd a)"
proof -
  let ?ps = "points f"
  let ?n = "length ?ps"
  have srt: "sorted (map fst ?ps)" using assms(1) by (simp add: strict_sorted_iff)
  have ne: "?ps \<noteq> []" using assms(2) by auto
  have last: "last ?ps = ?ps ! (?n - 1)" using ne by (simp add: last_conv_nth)
  have neq: "\<And>i j. i < ?n \<Longrightarrow> j < ?n \<Longrightarrow> i \<noteq> j \<Longrightarrow> fst (?ps ! i) \<noteq> fst (?ps ! j)"
  proof -
    fix i j assume "i < ?n" "j < ?n" "i \<noteq> j"
    then consider "i < j" | "j < i" by linarith
    then show "fst (?ps ! i) \<noteq> fst (?ps ! j)"
      using fst_nth_less[OF assms(1), of i j] fst_nth_less[OF assms(1), of j i] \<open>i < ?n\<close> \<open>j < ?n\<close>
      by cases auto
  qed
  obtain index where idx: "(if x > fst (last ?ps) then Inr (?n - 1)
          else if x < fst (?ps ! 0) then Inr 1
          else search_best_index ?ps x 0 ?n) = Inr index" and lt: "index < ?n"
  proof (cases "x > fst (last ?ps)")
    case True
    then show ?thesis using that[of "?n - 1"] assms(2) by simp
  next
    case False
    show ?thesis
    proof (cases "x < fst (?ps ! 0)")
      case True
      then show ?thesis using that[of 1] False assms(2) by simp
    next
      case ge: False
      from search_best_index_sorted[OF srt, of 0 ?n x]
      obtain i where i: "search_best_index ?ps x 0 ?n = Inr i" "i \<le> ?n"
        and alt: "(i < ?n \<and> fst (?ps ! i) = x) \<or>
          ((\<forall>j<i. fst (?ps ! j) < x) \<and> (\<forall>j. i \<le> j \<and> j < ?n \<longrightarrow> x < fst (?ps ! j)))"
        by auto
      have "i < ?n"
      proof (rule ccontr)
        assume "\<not> i < ?n"
        with i(2) have "i = ?n" by simp
        with alt have "\<forall>j<?n. fst (?ps ! j) < x" by auto
        then have "fst (?ps ! (?n - 1)) < x" using assms(2) by simp
        with False last show False by simp
      qed
      then show ?thesis using that[of i] i(1) False ge by simp
    qed
  qed
  define a where "a = (if index = 0 then last ?ps else ?ps ! (index - 1))"
  have a_in: "a \<in> set ?ps" using ne lt by (auto simp: a_def)
  have b_in: "?ps ! index \<in> set ?ps" using lt by simp
  have d: "fst (?ps ! index) \<noteq> fst a"
  proof (cases "index = 0")
    case True
    then show ?thesis unfolding a_def last using neq[of 0 "?n - 1"] assms(2) ne by simp
  next
    case False
    then show ?thesis unfolding a_def using neq[of index "index - 1"] lt by simp
  qed
  from Function_call_at[OF assms(2) idx lt a_def d] a_in b_in d show ?thesis by blast
qed

lemma Function_call_constant:
  assumes "sorted_wrt (<) (map fst (points f))" "points f \<noteq> []" "\<forall>p\<in>set (points f). snd p = c"
  shows "Function_call f x = Inr c"
proof (cases "length (points f) = 1")
  case True
  then have "points f ! 0 \<in> set (points f)" by simp
  then show ?thesis using True assms(2,3) by (simp add: Function_call_def)
next
  case False
  moreover have "length (points f) \<noteq> 0" using assms(2) by simp
  ultimately have "2 \<le> length (points f)" by linarith
  from Function_call_two_points[OF assms(1) this, of x]
  obtain a b where ab: "a \<in> set (points f)" "b \<in> set (points f)"
    "Function_call f x = Inr ((snd b - snd a) / (fst b - fst a) * (x - fst a) + snd a)"
    by blast
  have "snd a = c" "snd b = c" using ab(1,2) assms(3) by simp_all
  then show ?thesis using ab(3) by simp
qed

lemma steps_by_nth:
  "steps_by dx dy pts \<longleftrightarrow>
     (\<forall>k. Suc k < length pts \<longrightarrow> pts ! Suc k = (fst (pts ! k) + dx, snd (pts ! k) + dy))"
proof (induction dx dy pts rule: steps_by.induct)
  case (1 dx dy p q rest)
  show ?case
  proof
    assume a: "steps_by dx dy (p # q # rest)"
    show "\<forall>k. Suc k < length (p # q # rest) \<longrightarrow>
        (p # q # rest) ! Suc k = (fst ((p # q # rest) ! k) + dx, snd ((p # q # rest) ! k) + dy)"
    proof (intro allI impI)
      fix k assume k: "Suc k < length (p # q # rest)"
      show "(p # q # rest) ! Suc k = (fst ((p # q # rest) ! k) + dx, snd ((p # q # rest) ! k) + dy)"
      proof (cases k)
        case 0
        then show ?thesis using a by (simp add: prod_eq_iff)
      next
        case (Suc j)
        then show ?thesis using a k 1 by simp
      qed
    qed
  next
    assume b: "\<forall>k. Suc k < length (p # q # rest) \<longrightarrow>
        (p # q # rest) ! Suc k = (fst ((p # q # rest) ! k) + dx, snd ((p # q # rest) ! k) + dy)"
    have "q = (fst p + dx, snd p + dy)" using b[rule_format, of 0] by simp
    moreover have "\<forall>k. Suc k < length (q # rest) \<longrightarrow>
        (q # rest) ! Suc k = (fst ((q # rest) ! k) + dx, snd ((q # rest) ! k) + dy)"
    proof (intro allI impI)
      fix k assume "Suc k < length (q # rest)"
      then show "(q # rest) ! Suc k = (fst ((q # rest) ! k) + dx, snd ((q # rest) ! k) + dy)"
        using b[rule_format, of "Suc k"] by simp
    qed
    ultimately show "steps_by dx dy (p # q # rest)" using 1 by simp
  qed
qed simp_all

lemma steps_by_snoc:
  "steps_by dx dy pts \<Longrightarrow> pts \<noteq> [] \<Longrightarrow>
   steps_by dx dy (pts @ [(fst (last pts) + dx, snd (last pts) + dy)])"
  by (induction dx dy pts rule: steps_by.induct) simp_all

lemma steps_by_sorted:
  "0 < dx \<Longrightarrow> steps_by dx dy pts \<Longrightarrow> sorted_wrt (<) (map fst pts)"
proof (induction dx dy pts rule: steps_by.induct)
  case (1 dx dy p q rest)
  then have "sorted_wrt (<) (fst q # map fst rest)" by simp
  moreover have "fst p < fst q" using 1 by simp
  ultimately show ?case by (simp add: sorted_wrt2[OF transp_on_less] del: sorted_wrt.simps)
qed simp_all

lemma steps_by_differences:
  "steps_by dx dy ps \<Longrightarrow> \<forall>d\<in>set (map2 (\<lambda>p q. fst q - fst p) ps (tl ps)). d = dx"
  by (induction dx dy ps rule: steps_by.induct) simp_all

lemma steps_by_hd_append: "pts \<noteq> [] \<Longrightarrow> hd (pts @ qs) = hd pts"
  by simp

lemma Function_append_sorted:
  assumes "integral g = None" "points g \<noteq> []" "sorted (map fst (points g))" "0 < dx"
  shows "Function_append g dx dy =
     (None, Function (points g @ [(fst (last (points g)) + dx, snd (last (points g)) + dy)]) None
              (integration_method g))"
proof -
  have a: "fst (Function_append g dx dy) = None" "integral (snd (Function_append g dx dy)) = None"
    "integration_method (snd (Function_append g dx dy)) = integration_method g"
    using Function_append_plain[OF assms(1,2), of dx dy] by simp_all
  have b: "points (snd (Function_append g dx dy)) =
     points g @ [(fst (last (points g)) + dx, snd (last (points g)) + dy)]"
    using assms(2,3,4) by (rule Function_append_end)
  show ?thesis
    using a b by (metis Function.collapse prod.collapse)
qed

lemma integrate_constant:
  assumes f: "sorted_wrt (<) (map fst (points f))" "points f \<noteq> []" "\<forall>p\<in>set (points f). snd p = c"
    and g: "integral g = None" "points g \<noteq> []" "sorted (map fst (points g))" "0 < dx"
  shows "integrate_euler g f dx =
     (None, Function (points g @ [(fst (last (points g)) + dx, snd (last (points g)) + c * dx)]) None
              (integration_method g))"
    and "integrate_trapezoidal g f dx 1 =
     (None, Function (points g @ [(fst (last (points g)) + dx, snd (last (points g)) + c * dx)]) None
              (integration_method g))"
    and "integrate_rk4 g f dx =
     (None, Function (points g @ [(fst (last (points g)) + dx, snd (last (points g)) + c * dx)]) None
              (integration_method g))"
proof -
  have call: "\<And>x. Function_call f x = Inr c" using f by (rule Function_call_constant)
  note app = Function_append_sorted[OF g]
  show "integrate_euler g f dx =
     (None, Function (points g @ [(fst (last (points g)) + dx, snd (last (points g)) + c * dx)]) None
              (integration_method g))"
    using g(2) by (simp add: integrate_euler.simps Function_seek_def py_index_last call app mult.commute)
  have "dx / 2 * (c + c) = c * dx" by simp
  then show "integrate_trapezoidal g f dx 1 =
     (None, Function (points g @ [(fst (last (points g)) + dx, snd (last (points g)) + c * dx)]) None
              (integration_method g))"
    using integrate_trapezoidal_unfold[where f=g and dx=dx and d=f, OF f(2) call call]
    by (simp only: app)
  have "dx / 6 * (c + 2 * (2 * c) + c) = c * dx" by simp
  then show "integrate_rk4 g f dx =
     (None, Function (points g @ [(fst (last (points g)) + dx, snd (last (points g)) + c * dx)]) None
              (integration_method g))"
    using f(2) by (simp add: integrate_rk4.simps Function_seek_def py_index_last call app)
qed

lemma integral_loop_constant:
  assumes f: "sorted_wrt (<) (map fst (points f))" "points f \<noteq> []" "\<forall>p\<in>set (points f). snd p = c"
    and dx: "0 < dx"
  shows "\<forall>d\<in>set dxs. d = dx \<Longrightarrow> integral g = None \<Longrightarrow> points g \<noteq> [] \<Longrightarrow>
    steps_by dx (c * dx) (points g) \<Longrightarrow>
    fst (integral_loop (Some m) g f dxs) = None \<and>
    integral (snd (integral_loop (Some m) g f dxs)) = None \<and>
    length (points (snd (integral_loop (Some m) g f dxs))) = length (points g) + length dxs \<and>
    hd (points (snd (integral_loop (Some m) g f dxs))) = hd (points g) \<and>
    steps_by dx (c * dx) (points (snd (integral_loop (Some m) g f dxs)))"
proof (induction dxs arbitrary: g)
  case Nil
  then show ?case by (simp add: integral_loop.simps)
next
  case (Cons d dxs)
  have d: "d = dx" using Cons.prems(1) by simp
  define g' where "g' = Function (points g @ [(fst (last (points g)) + dx, snd (last (points g)) + c * dx)])
      None (integration_method g)"
  have srt: "sorted (map fst (points g))"
    using steps_by_sorted[OF dx Cons.prems(4)] by (simp add: strict_sorted_iff)
  note one = integrate_constant[OF f Cons.prems(2,3) srt dx, folded g'_def]
  have step: "integral_loop (Some m) g f (d # dxs) = integral_loop (Some m) g' f dxs"
    unfolding d by (cases m) (simp_all add: integral_loop.simps one one(2)[unfolded One_nat_def])
  have g': "integral g' = None" "points g' \<noteq> []" "steps_by dx (c * dx) (points g')"
    "length (points g') = Suc (length (points g))" "hd (points g') = hd (points g)"
    using Cons.prems(3,4) by (simp_all add: g'_def steps_by_snoc)
  have "\<forall>d\<in>set dxs. d = dx" using Cons.prems(1) by simp
  from Cons.IH[OF this g'(1,2,3)] show ?case unfolding step using g'(4,5) by simp
qed

lemma Function_insert_seed:
  "Function_insert (Function [] None m) x0 y0 False = (None, Function [(x0, y0)] None m)"
  using Function_insert_plain[of "Function [] None m" x0 0 y0]
  by (simp add: search_best_index.simps list_insert_def)

text \<open>
  C8: for a function whose stored points are spaced at a uniform step dx > 0 in x and all
  have the y-value c, \<^verbatim>\<open>integral\<close> with any of the three schemes returns normally, and
  the integral starts at the seed (x0, y0) and each of its samples is the previous one
  moved by exactly dx in x and c * dx in y.
\<close>

theorem integral_constant_derivative:
  assumes "steps_by dx 0 (points f)" and "\<forall>p\<in>set (points f). snd p = c" and "0 < dx"
  shows "fst (Function_integral f (Some m) x0 y0) = None \<and>
    (\<exists>g. integral (snd (Function_integral f (Some m) x0 y0)) = Some g \<and>
         length (points g) = max 1 (length (points f)) \<and>
         points g ! 0 = (x0, y0) \<and>
         (\<forall>k. Suc k < length (points g) \<longrightarrow>
            points g ! Suc k = (fst (points g ! k) + dx, snd (points g ! k) + c * dx)))"
proof -
  let ?g0 = "Function [(x0, y0)] None (Some m)"
  let ?dxs = "map2 (\<lambda>p q. fst q - fst p) (points f) (tl (points f))"
  obtain r g where loop: "integral_loop (Some m) ?g0 f ?dxs = (r, g)"
    by (cases "integral_loop (Some m) ?g0 f ?dxs")
  have res: "Function_integral f (Some m) x0 y0 = (r, Function (points f) (Some g) (integration_method f))"
    by (simp add: Function_integral.simps Function_insert_seed loop)
  have "r = None \<and> length (points g) = max 1 (length (points f)) \<and> hd (points g) = (x0, y0) \<and>
     steps_by dx (c * dx) (points g)"
  proof (cases "points f = []")
    case True
    then show ?thesis using loop by (auto simp add: integral_loop.simps)
  next
    case False
    have srt: "sorted_wrt (<) (map fst (points f))" using assms(3,1) by (rule steps_by_sorted)
    have all: "\<forall>d\<in>set ?dxs. d = dx" using assms(1) by (rule steps_by_differences)
    have len: "length ?dxs = length (points f) - 1" by simp
    from integral_loop_constant[OF srt False assms(2,3) all, of ?g0 m] loop len False
    show ?thesis by (cases "points f") auto
  qed
  then have a: "r = None" "length (points g) = max 1 (length (points f))" "hd (points g) = (x0, y0)"
    and st: "steps_by dx (c * dx) (points g)" by simp_all
  have "points g \<noteq> []" using a(2) by auto
  then have "points g ! 0 = (x0, y0)" using a(3) by (simp add: hd_conv_nth)
  moreover have "\<forall>k. Suc k < length (points g) \<longrightarrow>
            points g ! Suc k = (fst (points g ! k) + dx, snd (points g ! k) + c * dx)"
    using st by (simp only: steps_by_nth)
  ultimately show ?thesis using res a by simp
qed

lemma call_eval3: "Function_call (Function [(0, 1), (1, 1)] None None) 0 = Inr 1"
  by (simp add: Function_call_def search_best_index.simps py_index_def py_div_def)

text \<open>The spec's example: Euler-integrating the samples d(0) = 1, d(1) = 1 from (0, 0).\<close>

lemma integral_euler_example:
  "Function_integral (Function [(0, 1), (1, 1)] None None) (Some EULER) 0 0 =
     (None, Function [(0, 1), (1, 1)] (Some (Function [(0, 0), (1, 1)] None (Some EULER))) None)"
  by (simp add: Function_integral.simps Function_insert_seed integral_loop.simps
      integrate_euler.simps Function_seek_def py_index_def call_eval3 Function_append.simps
      Function_insert.simps search_best_index.simps list_insert_def)

theorem integral_constant_derivative_witness:
  "\<exists>g. integral (snd (Function_integral (Function [(0, 3), (2, 3), (4, 3)] None None) (Some RK4) 0 5))
        = Some g \<and>
       length (points g) = 3 \<and> points g ! 0 = (0, 5) \<and> points g ! 1 = (2, 11) \<and>
       points g ! 2 = (4, 17)"
proof -
  from integral_constant_derivative [of 2 "Function [(0, 3), (2, 3), (4, 3)] None None" 3 RK4 0 5]
  obtain g where g:
    "integral (snd (Function_integral (Function [(0, 3), (2, 3), (4, 3)] None None) (Some RK4) 0 5))
        = Some g"
    "length (points g) = 3" "points g ! 0 = (0, 5)"
    "\<forall>k. Suc k < length (points g) \<longrightarrow>
            points g ! Suc k = (fst (points g ! k) + 2, snd (points g ! k) + 3 * 2)"
    by auto
  have "points g ! Suc 0 = (2, 11)" using g(2,3) g(4)[rule_format, of 0] by simp
  moreover from this have "points g ! Suc (Suc 0) = (4, 17)"
    using g(2) g(4)[rule_format, of "Suc 0"] by simp
  ultimately show ?thesis using g(1,2,3) by (auto simp: numeral_2_eq_2)
qed

section \<open>Insertion with a cached integral\<close>

lemma Function_call_points: "points f = points f' \<Longrightarrow> Function_call f x = Function_call f' x"
  by (simp add: Function_call_def)

lemma trapezoidal_area_points:
  "points f = points f' \<Longrightarrow> trapezoidal_area f w x n a = trapezoidal_area f' w x n a"
  by (induction n arbitrary: x a) (simp_all add: Function_call_points[of f f'] cong: sum.case_cong)

lemma integrate_points:
  assumes "points f = points f'"
  shows "integrate_euler g f dx = integrate_euler g f' dx"
    and "integrate_trapezoidal g f dx n = integrate_trapezoidal g f' dx n"
    and "integrate_rk4 g f dx = integrate_rk4 g f' dx"
  using assms
  by (simp_all add: integrate_euler.simps integrate_trapezoidal.simps integrate_rk4.simps
      Function_seek_def Function_call_points[of f f'] trapezoidal_area_points[of f f']
      cong: sum.case_cong)

lemma integral_loop_points:
  "points f = points f' \<Longrightarrow> integral_loop m g f dxs = integral_loop m g f' dxs"
proof (induction dxs arbitrary: g)
  case Nil
  then show ?case by (simp add: integral_loop.simps)
next
  case (Cons dx dxs)
  note eq = integrate_points[OF Cons.prems]
  show ?case
    using Cons.IH[OF Cons.prems]
    by (auto simp: integral_loop.simps eq
        split: option.splits IntegrationMethod.splits prod.splits)
qed

lemma Function_integral_points:
  assumes "points f = points f'"
  shows "fst (Function_integral f m x0 y0) = fst (Function_integral f' m x0 y0)"
    and "integral (snd (Function_integral f m x0 y0)) = integral (snd (Function_integral f' m x0 y0))"
  using assms
  by (simp_all add: Function_integral.simps integral_loop_points[OF assms] split_def
      split: option.splits)

lemma py_index_first: "xs \<noteq> [] \<Longrightarrow> py_index xs 0 = Inr (hd xs)"
  by (cases xs) (simp_all add: py_index_def)

lemma Function_insert_rebuild:
  assumes "integral f = Some g" "search_best_index (points f) x 0 (length (points f)) = Inr i"
    "\<not> (check \<and> x \<in> fst ` set (points f))" "i \<noteq> length (points f)" "points g \<noteq> []"
  shows "Function_insert f x y check =
     Function_integral (Function (list_insert (points f) i (x, y)) (Some g) (integration_method f))
       (integration_method g) (fst (hd (points g))) (snd (hd (points g)))"
proof -
  have "length (list_insert (points f) i (x, y)) = Suc (length (points f))"
    by (simp add: list_insert_def)
  then have ne: "int i \<noteq> int (length (list_insert (points f) i (x, y))) - 1"
    using assms(4) by simp
  show ?thesis
    using assms(1,2,3,5) ne
    by (subst Function_insert.simps) (auto simp: Let_def py_index_first)
qed

lemma Function_insert_trailing:
  assumes "integral f = Some g" "search_best_index (points f) x 0 (length (points f)) = Inr i"
    "\<not> (check \<and> x \<in> fst ` set (points f))" "i = length (points f)"
  shows "Function_insert f x y check =
     update_integral (Function (points f @ [(x, y)]) (Some g) (integration_method f))"
  using assms
  by (subst Function_insert.simps) (auto simp: Let_def list_insert_def)

lemma Function_append_returns: "fst (Function_append g dx dy) = None \<Longrightarrow> points g \<noteq> []"
  by (auto simp: Function_append.simps py_index_def)

lemma py_index_last_inv: "py_index xs (- 1) = Inr p \<Longrightarrow> xs \<noteq> [] \<and> p = last xs"
  by (cases xs rule: rev_cases) (auto simp: py_index_def split: if_splits)

lemma integrate_euler_value:
  assumes "points g \<noteq> []" "Function_call d (fst (last (points g))) = Inr v"
  shows "integrate_euler g d dx = Function_append g dx (dx * v)"
  using assms by (simp add: integrate_euler.simps Function_seek_def py_index_last)

lemma integrate_rk4_value:
  assumes "points d \<noteq> []" "Function_call d (fst (last (points d))) = Inr k1"
    "Function_call d (fst (last (points d)) + dx / 2) = Inr k2"
    "Function_call d (fst (last (points d)) + dx) = Inr k4"
  shows "integrate_rk4 g d dx = Function_append g dx (dx / 6 * (k1 + 2 * (2 * k2) + k4))"
  using assms by (simp add: integrate_rk4.simps Function_seek_def py_index_last)

lemma integrate_euler_returns:
  assumes "fst (integrate_euler g d dx) = None"
  shows "\<exists>v. points g \<noteq> [] \<and> Function_call d (fst (last (points g))) = Inr v \<and>
     integrate_euler g d dx = Function_append g dx (dx * v)"
proof -
  obtain p where p: "py_index (points g) (- 1) = Inr p"
    using assms by (cases "py_index (points g) (- 1)")
      (simp_all add: integrate_euler.simps Function_seek_def)
  then have ne: "points g \<noteq> []" and pl: "p = last (points g)"
    using py_index_last_inv[OF p] by simp_all
  obtain v where v: "Function_call d (fst (last (points g))) = Inr v"
    using assms p pl by (cases "Function_call d (fst (last (points g)))")
      (simp_all add: integrate_euler.simps Function_seek_def)
  from integrate_euler_value[OF ne v] ne v show ?thesis by blast
qed

lemma integrate_trapezoidal_returns:
  assumes "fst (integrate_trapezoidal g d dx 1) = None"
  shows "\<exists>l r. points d \<noteq> [] \<and> Function_call d (fst (last (points d)) - dx) = Inr l \<and>
     Function_call d (fst (last (points d))) = Inr r \<and>
     integrate_trapezoidal g d dx 1 = Function_append g dx (dx / 2 * (l + r))"
proof -
  have w: "py_div dx (real (1::nat)) = Inr dx" by (simp add: py_div_def)
  obtain p where p: "py_index (points d) (- 1) = Inr p"
    using assms w by (cases "py_index (points d) (- 1)")
      (simp_all add: integrate_trapezoidal.simps Function_seek_def)
  then have ne: "points d \<noteq> []" and pl: "p = last (points d)"
    using py_index_last_inv[OF p] by simp_all
  obtain l where l: "Function_call d (fst (last (points d)) - dx) = Inr l"
    using assms w p pl by (cases "Function_call d (fst (last (points d)) - dx)")
      (simp_all add: integrate_trapezoidal.simps Function_seek_def)
  obtain r where r: "Function_call d (fst (last (points d))) = Inr r"
    using assms w p pl l by (cases "Function_call d (fst (last (points d)))")
      (simp_all add: integrate_trapezoidal.simps Function_seek_def)
  from integrate_trapezoidal_unfold[OF ne l r] ne l r show ?thesis by blast
qed

lemma integrate_rk4_returns:
  assumes "fst (integrate_rk4 g d dx) = None"
  shows "\<exists>k1 k2 k4. points d \<noteq> [] \<and> Function_call d (fst (last (points d))) = Inr k1 \<and>
     Function_call d (fst (last (points d)) + dx / 2) = Inr k2 \<and>
     Function_call d (fst (last (points d)) + dx) = Inr k4 \<and>
     integrate_rk4 g d dx = Function_append g dx (dx / 6 * (k1 + 2 * (2 * k2) + k4))"
proof -
  obtain p where p: "py_index (points d) (- 1) = Inr p"
    using assms by (cases "py_index (points d) (- 1)")
      (simp_all add: integrate_rk4.simps Function_seek_def)
  then have ne: "points d \<noteq> []" and pl: "p = last (points d)"
    using py_index_last_inv[OF p] by simp_all
  obtain k1 where k1: "Function_call d (fst (last (points d))) = Inr k1"
    using assms p pl by (cases "Function_call d (fst (last (points d)))")
      (simp_all add: integrate_rk4.simps Function_seek_def)
  obtain k2 where k2: "Function_call d (fst (last (points d)) + dx / 2) = Inr k2"
    using assms p pl k1 by (cases "Function_call d (fst (last (points d)) + dx / 2)")
      (simp_all add: integrate_rk4.simps Function_seek_def)
  obtain k4 where k4: "Function_call d (fst (last (points d)) + dx) = Inr k4"
    using assms p pl k1 k2 by (cases "Function_call d (fst (last (points d)) + dx)")
      (simp_all add: integrate_rk4.simps Function_seek_def)
  from integrate_rk4_value[OF ne k1 k2 k4] ne k1 k2 k4 show ?thesis by blast
qed

lemma Function_call_total:
  assumes "sorted_wrt (<) (map fst (points f))" "points f \<noteq> []"
  shows "\<exists>v. Function_call f x = Inr v"
proof (cases "length (points f) = 1")
  case True
  then show ?thesis using assms(2) by (simp add: Function_call_def)
next
  case False
  moreover have "length (points f) \<noteq> 0" using assms(2) by simp
  ultimately have "2 \<le> length (points f)" by linarith
  from Function_call_two_points[OF assms(1) this, of x] show ?thesis by blast
qed

lemma search_at_end:
  assumes "sorted (map fst ps)" "search_best_index ps x 0 (length ps) = Inr (length ps)"
  shows "\<forall>p\<in>set ps. fst p < x"
proof -
  from search_best_index_sorted[OF assms(1), of 0 "length ps" x] assms(2)
  have "\<forall>j<length ps. fst (ps ! j) < x" by auto
  then show ?thesis by (metis fst_conv in_set_conv_nth)
qed

text \<open>An insert at the end is the integration step of the cached integral's scheme, on
  the cached integral, with the function holding the new point as the derivative.\<close>

lemma Function_insert_trailing_step:
  assumes "integral f = Some g" "search_best_index (points f) x 0 (length (points f)) = Inr i"
    "\<not> (check \<and> x \<in> fst ` set (points f))" "i = length (points f)"
  shows "integration_method g = Some EULER \<Longrightarrow>
      Function_insert f x y check =
        (fst (integrate_euler g (Function (points f @ [(x, y)]) (Some g) (integration_method f))
               (if points f = [] then 0 else x - fst (last (points f)))),
         Function (points f @ [(x, y)])
           (Some (snd (integrate_euler g (Function (points f @ [(x, y)]) (Some g) (integration_method f))
               (if points f = [] then 0 else x - fst (last (points f))))))
           (integration_method f))"
    and "integration_method g = Some TRAPEZOIDAL \<Longrightarrow>
      Function_insert f x y check =
        (fst (integrate_trapezoidal g (Function (points f @ [(x, y)]) (Some g) (integration_method f))
               (if points f = [] then 0 else x - fst (last (points f))) 1),
         Function (points f @ [(x, y)])
           (Some (snd (integrate_trapezoidal g (Function (points f @ [(x, y)]) (Some g) (integration_method f))
               (if points f = [] then 0 else x - fst (last (points f))) 1)))
           (integration_method f))"
    and "integration_method g = Some RK4 \<Longrightarrow>
      Function_insert f x y check =
        (fst (integrate_rk4 g (Function (points f @ [(x, y)]) (Some g) (integration_method f))
               (if points f = [] then 0 else x - fst (last (points f)))),
         Function (points f @ [(x, y)])
           (Some (snd (integrate_rk4 g (Function (points f @ [(x, y)]) (Some g) (integration_method f))
               (if points f = [] then 0 else x - fst (last (points f))))))
           (integration_method f))"
proof -
  let ?f1 = "Function (points f @ [(x, y)]) (Some g) (integration_method f)"
  have eq: "Function_insert f x y check = update_integral ?f1"
    using assms by (rule Function_insert_trailing)
  have dx: "(if length (points ?f1) > 1
           then fst (last (points ?f1)) - fst (points ?f1 ! (length (points ?f1) - 2)) else 0) =
        (if points f = [] then 0 else x - fst (last (points f)))"
    by (cases "points f" rule: rev_cases) (simp_all add: nth_append)
  show "integration_method g = Some EULER \<Longrightarrow>
      Function_insert f x y check =
        (fst (integrate_euler g ?f1 (if points f = [] then 0 else x - fst (last (points f)))),
         Function (points f @ [(x, y)])
           (Some (snd (integrate_euler g ?f1 (if points f = [] then 0 else x - fst (last (points f))))))
           (integration_method f))"
    unfolding eq by (subst update_integral.simps) (simp add: Let_def split_def dx[simplified])
  show "integration_method g = Some TRAPEZOIDAL \<Longrightarrow>
      Function_insert f x y check =
        (fst (integrate_trapezoidal g ?f1 (if points f = [] then 0 else x - fst (last (points f))) 1),
         Function (points f @ [(x, y)])
           (Some (snd (integrate_trapezoidal g ?f1
               (if points f = [] then 0 else x - fst (last (points f))) 1)))
           (integration_method f))"
    unfolding eq by (subst update_integral.simps) (simp add: Let_def split_def dx[simplified])
  show "integration_method g = Some RK4 \<Longrightarrow>
      Function_insert f x y check =
        (fst (integrate_rk4 g ?f1 (if points f = [] then 0 else x - fst (last (points f)))),
         Function (points f @ [(x, y)])
           (Some (snd (integrate_rk4 g ?f1 (if points f = [] then 0 else x - fst (last (points f))))))
           (integration_method f))"
    unfolding eq by (subst update_integral.simps) (simp add: Let_def split_def dx[simplified])
qed

text \<open>
  C4: let f have the cached integral g, and let an insert of (x, y) that passes the
  duplicate check find the index i. If i is not the end of the list and g has a stored
  point, the insert is the call of \<^verbatim>\<open>integral\<close> on the function with the new points,
  with g's scheme and g's first point as the initial condition, and its outcome and the
  integral it leaves are those of \<^verbatim>\<open>integral\<close> on a function with the same points and
  no cache. If i is the end of the list, the cached integral gains exactly one point,
  the sample of g's scheme: its x is g's last x plus the step dx from f's old last x to
  x (0 when f was empty), and its y is g's last y plus dx * d(g's last x) for Euler,
  dx/2 * (d(x - dx) + d(x)) for the trapezoidal rule and
  dx/6 * (d(x) + 4 * d(x + dx/2) + d(x + dx)) for Runge-Kutta 4, where d is f with the new
  point. This holds whenever the insert returns normally; and when f is strictly increasing
  and non-empty and g is sorted and non-empty, the evaluations of d return, the sample is
  appended at the end of g, and the insert returns normally if g has no cached integral of
  its own.
\<close>

theorem insert_updates_cached_integral:
  assumes "integral f = Some g"
    and "search_best_index (points f) x 0 (length (points f)) = Inr i"
    and "\<not> (check \<and> x \<in> fst ` set (points f))"
  shows "(i \<noteq> length (points f) \<and> points g \<noteq> [] \<longrightarrow>
      Function_insert f x y check =
        Function_integral (Function (list_insert (points f) i (x, y)) (Some g) (integration_method f))
          (integration_method g) (fst (hd (points g))) (snd (hd (points g))) \<and>
      fst (Function_insert f x y check) =
        fst (Function_integral (Function (list_insert (points f) i (x, y)) None None)
          (integration_method g) (fst (hd (points g))) (snd (hd (points g)))) \<and>
      integral (snd (Function_insert f x y check)) =
        integral (snd (Function_integral (Function (list_insert (points f) i (x, y)) None None)
          (integration_method g) (fst (hd (points g))) (snd (hd (points g)))))) \<and>
    (let d = snd (Function_insert f x y check);
         dx = (if points f = [] then 0 else x - fst (last (points f)));
         q = last (points g)
     in
     (i = length (points f) \<and> fst (Function_insert f x y check) = None \<longrightarrow>
        points d = points f @ [(x, y)] \<and>
        (integration_method g = Some EULER \<longrightarrow>
           (\<exists>g' j v. integral d = Some g' \<and> j \<le> length (points g) \<and>
              Function_call d (fst q) = Inr v \<and>
              points g' = list_insert (points g) j (fst q + dx, snd q + dx * v))) \<and>
        (integration_method g = Some TRAPEZOIDAL \<longrightarrow>
           (\<exists>g' j l r. integral d = Some g' \<and> j \<le> length (points g) \<and>
              Function_call d (x - dx) = Inr l \<and> Function_call d x = Inr r \<and>
              points g' = list_insert (points g) j (fst q + dx, snd q + dx / 2 * (l + r)))) \<and>
        (integration_method g = Some RK4 \<longrightarrow>
           (\<exists>g' j k1 k2 k4. integral d = Some g' \<and> j \<le> length (points g) \<and>
              Function_call d x = Inr k1 \<and> Function_call d (x + dx / 2) = Inr k2 \<and>
              Function_call d (x + dx) = Inr k4 \<and>
              points g' = list_insert (points g) j
                (fst q + dx, snd q + dx / 6 * (k1 + 2 * (2 * k2) + k4))))) \<and>
     (i = length (points f) \<and> sorted_wrt (<) (map fst (points f)) \<and> points f \<noteq> [] \<and>
      sorted (map fst (points g)) \<and> points g \<noteq> [] \<longrightarrow>
        points d = points f @ [(x, y)] \<and>
        (integration_method g = Some EULER \<longrightarrow>
           (\<exists>g' v. integral d = Some g' \<and> Function_call d (fst q) = Inr v \<and>
              points g' = points g @ [(fst q + dx, snd q + dx * v)])) \<and>
        (integration_method g = Some TRAPEZOIDAL \<longrightarrow>
           (\<exists>g' l r. integral d = Some g' \<and>
              Function_call d (x - dx) = Inr l \<and> Function_call d x = Inr r \<and>
              points g' = points g @ [(fst q + dx, snd q + dx / 2 * (l + r))])) \<and>
        (integration_method g = Some RK4 \<longrightarrow>
           (\<exists>g' k1 k2 k4. integral d = Some g' \<and>
              Function_call d x = Inr k1 \<and> Function_call d (x + dx / 2) = Inr k2 \<and>
              Function_call d (x + dx) = Inr k4 \<and>
              points g' = points g @ [(fst q + dx, snd q + dx / 6 * (k1 + 2 * (2 * k2) + k4))])) \<and>
        (integration_method g \<noteq> None \<and> integral g = None \<longrightarrow>
           fst (Function_insert f x y check) = None)))"
proof -
  let ?ins = "Function_insert f x y check"
  let ?d = "snd ?ins"
  let ?f1 = "Function (points f @ [(x, y)]) (Some g) (integration_method f)"
  let ?dx = "if points f = [] then 0 else x - fst (last (points f))"
  let ?q = "last (points g)"
  have rebuild: "i \<noteq> length (points f) \<and> points g \<noteq> [] \<longrightarrow>
      ?ins =
        Function_integral (Function (list_insert (points f) i (x, y)) (Some g) (integration_method f))
          (integration_method g) (fst (hd (points g))) (snd (hd (points g))) \<and>
      fst ?ins =
        fst (Function_integral (Function (list_insert (points f) i (x, y)) None None)
          (integration_method g) (fst (hd (points g))) (snd (hd (points g)))) \<and>
      integral (snd ?ins) =
        integral (snd (Function_integral (Function (list_insert (points f) i (x, y)) None None)
          (integration_method g) (fst (hd (points g))) (snd (hd (points g)))))"
  proof
    assume h: "i \<noteq> length (points f) \<and> points g \<noteq> []"
    let ?g1 = "Function (list_insert (points f) i (x, y)) (Some g) (integration_method f)"
    let ?g2 = "Function (list_insert (points f) i (x, y)) None None"
    have eq: "?ins =
        Function_integral ?g1 (integration_method g) (fst (hd (points g))) (snd (hd (points g)))"
      using assms h by (intro Function_insert_rebuild) simp_all
    have p: "points ?g1 = points ?g2" by simp
    show "?ins =
        Function_integral ?g1 (integration_method g) (fst (hd (points g))) (snd (hd (points g))) \<and>
      fst ?ins =
        fst (Function_integral ?g2 (integration_method g) (fst (hd (points g))) (snd (hd (points g)))) \<and>
      integral (snd ?ins) =
        integral (snd (Function_integral ?g2 (integration_method g) (fst (hd (points g)))
          (snd (hd (points g)))))"
      using eq Function_integral_points[OF p] by simp
  qed
  have pts: "i = length (points f) \<Longrightarrow> points ?d = points f @ [(x, y)]"
    using points_Function_insert[OF assms(2,3), of y] by (simp add: list_insert_end)
  have call: "i = length (points f) \<Longrightarrow> Function_call ?d z = Function_call ?f1 z" for z
    using pts by (intro Function_call_points) simp
  have lastx: "fst (last (points ?f1)) = x" by simp
  note step = Function_insert_trailing_step[OF assms]
  have returns: "i = length (points f) \<and> fst ?ins = None \<longrightarrow>
        points ?d = points f @ [(x, y)] \<and>
        (integration_method g = Some EULER \<longrightarrow>
           (\<exists>g' j v. integral ?d = Some g' \<and> j \<le> length (points g) \<and>
              Function_call ?d (fst ?q) = Inr v \<and>
              points g' = list_insert (points g) j (fst ?q + ?dx, snd ?q + ?dx * v))) \<and>
        (integration_method g = Some TRAPEZOIDAL \<longrightarrow>
           (\<exists>g' j l r. integral ?d = Some g' \<and> j \<le> length (points g) \<and>
              Function_call ?d (x - ?dx) = Inr l \<and> Function_call ?d x = Inr r \<and>
              points g' = list_insert (points g) j (fst ?q + ?dx, snd ?q + ?dx / 2 * (l + r)))) \<and>
        (integration_method g = Some RK4 \<longrightarrow>
           (\<exists>g' j k1 k2 k4. integral ?d = Some g' \<and> j \<le> length (points g) \<and>
              Function_call ?d x = Inr k1 \<and> Function_call ?d (x + ?dx / 2) = Inr k2 \<and>
              Function_call ?d (x + ?dx) = Inr k4 \<and>
              points g' = list_insert (points g) j
                (fst ?q + ?dx, snd ?q + ?dx / 6 * (k1 + 2 * (2 * k2) + k4))))"
  proof (intro impI conjI)
    assume h: "i = length (points f) \<and> fst ?ins = None"
    then have i: "i = length (points f)" and none: "fst ?ins = None" by simp_all
    show "points ?d = points f @ [(x, y)]" using pts[OF i] .
    {
      assume m: "integration_method g = Some EULER"
      let ?r = "integrate_euler g ?f1 ?dx"
      have ins: "?ins = (fst ?r, Function (points f @ [(x, y)]) (Some (snd ?r)) (integration_method f))"
        using step(1)[OF i m] .
      then have "fst ?r = None" using none by simp
      from integrate_euler_returns[OF this]
      obtain v where v: "points g \<noteq> []" "Function_call ?f1 (fst ?q) = Inr v"
        "?r = Function_append g ?dx (?dx * v)" by blast
      from Function_append_points[OF v(1), of ?dx "?dx * v"]
      obtain j where j: "j \<le> length (points g)"
        "points (snd ?r) = list_insert (points g) j (fst ?q + ?dx, snd ?q + ?dx * v)"
        unfolding v(3) by blast
      have "integral ?d = Some (snd ?r)" by (subst ins) simp
      then show "\<exists>g' j v. integral ?d = Some g' \<and> j \<le> length (points g) \<and>
              Function_call ?d (fst ?q) = Inr v \<and>
              points g' = list_insert (points g) j (fst ?q + ?dx, snd ?q + ?dx * v)"
        using j v(2) call[OF i] by auto
    }
    {
      assume m: "integration_method g = Some TRAPEZOIDAL"
      let ?r = "integrate_trapezoidal g ?f1 ?dx 1"
      have ins: "?ins = (fst ?r, Function (points f @ [(x, y)]) (Some (snd ?r)) (integration_method f))"
        using step(2)[OF i m] .
      then have "fst ?r = None" using none by simp
      from integrate_trapezoidal_returns[OF this]
      obtain l r where v: "Function_call ?f1 (x - ?dx) = Inr l" "Function_call ?f1 x = Inr r"
        "?r = Function_append g ?dx (?dx / 2 * (l + r))" unfolding lastx by blast
      have "fst (Function_append g ?dx (?dx / 2 * (l + r))) = None"
        using \<open>fst ?r = None\<close> v(3) by simp
      then have gne: "points g \<noteq> []" by (rule Function_append_returns)
      from Function_append_points[OF gne, of ?dx "?dx / 2 * (l + r)"]
      obtain j where j: "j \<le> length (points g)"
        "points (snd ?r) = list_insert (points g) j (fst ?q + ?dx, snd ?q + ?dx / 2 * (l + r))"
        unfolding v(3) by blast
      have "integral ?d = Some (snd ?r)" by (subst ins) simp
      then show "\<exists>g' j l r. integral ?d = Some g' \<and> j \<le> length (points g) \<and>
              Function_call ?d (x - ?dx) = Inr l \<and> Function_call ?d x = Inr r \<and>
              points g' = list_insert (points g) j (fst ?q + ?dx, snd ?q + ?dx / 2 * (l + r))"
        using j v(1,2) call[OF i] by auto
    }
    {
      assume m: "integration_method g = Some RK4"
      let ?r = "integrate_rk4 g ?f1 ?dx"
      have ins: "?ins = (fst ?r, Function (points f @ [(x, y)]) (Some (snd ?r)) (integration_method f))"
        using step(3)[OF i m] .
      then have "fst ?r = None" using none by simp
      from integrate_rk4_returns[OF this]
      obtain k1 k2 k4 where v: "Function_call ?f1 x = Inr k1"
        "Function_call ?f1 (x + ?dx / 2) = Inr k2" "Function_call ?f1 (x + ?dx) = Inr k4"
        "?r = Function_append g ?dx (?dx / 6 * (k1 + 2 * (2 * k2) + k4))" unfolding lastx by blast
      have "fst (Function_append g ?dx (?dx / 6 * (k1 + 2 * (2 * k2) + k4))) = None"
        using \<open>fst ?r = None\<close> v(4) by simp
      then have gne: "points g \<noteq> []" by (rule Function_append_returns)
      from Function_append_points[OF gne, of ?dx "?dx / 6 * (k1 + 2 * (2 * k2) + k4)"]
      obtain j where j: "j \<le> length (points g)"
        "points (snd ?r) = list_insert (points g) j
           (fst ?q + ?dx, snd ?q + ?dx / 6 * (k1 + 2 * (2 * k2) + k4))"
        unfolding v(4) by blast
      have "integral ?d = Some (snd ?r)" by (subst ins) simp
      then show "\<exists>g' j k1 k2 k4. integral ?d = Some g' \<and> j \<le> length (points g) \<and>
              Function_call ?d x = Inr k1 \<and> Function_call ?d (x + ?dx / 2) = Inr k2 \<and>
              Function_call ?d (x + ?dx) = Inr k4 \<and>
              points g' = list_insert (points g) j
                (fst ?q + ?dx, snd ?q + ?dx / 6 * (k1 + 2 * (2 * k2) + k4))"
        using j v(1,2,3) call[OF i] by auto
    }
  qed
  have ordered: "i = length (points f) \<and> sorted_wrt (<) (map fst (points f)) \<and> points f \<noteq> [] \<and>
      sorted (map fst (points g)) \<and> points g \<noteq> [] \<longrightarrow>
        points ?d = points f @ [(x, y)] \<and>
        (integration_method g = Some EULER \<longrightarrow>
           (\<exists>g' v. integral ?d = Some g' \<and> Function_call ?d (fst ?q) = Inr v \<and>
              points g' = points g @ [(fst ?q + ?dx, snd ?q + ?dx * v)])) \<and>
        (integration_method g = Some TRAPEZOIDAL \<longrightarrow>
           (\<exists>g' l r. integral ?d = Some g' \<and>
              Function_call ?d (x - ?dx) = Inr l \<and> Function_call ?d x = Inr r \<and>
              points g' = points g @ [(fst ?q + ?dx, snd ?q + ?dx / 2 * (l + r))])) \<and>
        (integration_method g = Some RK4 \<longrightarrow>
           (\<exists>g' k1 k2 k4. integral ?d = Some g' \<and>
              Function_call ?d x = Inr k1 \<and> Function_call ?d (x + ?dx / 2) = Inr k2 \<and>
              Function_call ?d (x + ?dx) = Inr k4 \<and>
              points g' = points g @ [(fst ?q + ?dx, snd ?q + ?dx / 6 * (k1 + 2 * (2 * k2) + k4))])) \<and>
        (integration_method g \<noteq> None \<and> integral g = None \<longrightarrow> fst ?ins = None)"
  proof (intro impI)
    assume h: "i = length (points f) \<and> sorted_wrt (<) (map fst (points f)) \<and> points f \<noteq> [] \<and>
      sorted (map fst (points g)) \<and> points g \<noteq> []"
    then have i: "i = length (points f)" and gne: "points g \<noteq> []"
      and gs: "sorted (map fst (points g))" by simp_all
    have srt: "sorted (map fst (points f))" using h by (simp add: strict_sorted_iff)
    have above: "\<forall>p\<in>set (points f). fst p < x"
      using srt assms(2) i by (intro search_at_end) simp_all
    then have pos: "0 < ?dx" using h by simp
    from above have "x \<notin> fst ` set (points f)" by auto
    with search_then_strict_sorted[of "points f" x i y] assms(2) h
    have s1: "sorted_wrt (<) (map fst (points ?f1))" by (simp add: list_insert_end)
    have ne1: "points ?f1 \<noteq> []" by simp
    note total = Function_call_total[OF s1 ne1]
    note at_end = Function_append_end[OF gne gs pos]
    note plain = Function_append_plain[OF _ gne]
    have e: "integration_method g = Some EULER \<longrightarrow>
           (\<exists>g' v. integral ?d = Some g' \<and> Function_call ?d (fst ?q) = Inr v \<and>
              points g' = points g @ [(fst ?q + ?dx, snd ?q + ?dx * v)]) \<and>
           (integral g = None \<longrightarrow> fst ?ins = None)"
    proof
      assume m: "integration_method g = Some EULER"
      let ?r = "integrate_euler g ?f1 ?dx"
      have ins: "?ins = (fst ?r, Function (points f @ [(x, y)]) (Some (snd ?r)) (integration_method f))"
        using step(1)[OF i m] .
      obtain v where v: "Function_call ?f1 (fst ?q) = Inr v" using total by blast
      have r: "?r = Function_append g ?dx (?dx * v)" using gne v by (rule integrate_euler_value)
      have "integral ?d = Some (snd ?r)" by (subst ins) simp
      moreover have "fst ?ins = fst ?r" by (subst ins) simp
      ultimately show "(\<exists>g' v. integral ?d = Some g' \<and> Function_call ?d (fst ?q) = Inr v \<and>
              points g' = points g @ [(fst ?q + ?dx, snd ?q + ?dx * v)]) \<and>
           (integral g = None \<longrightarrow> fst ?ins = None)"
        using v call[OF i] at_end[of "?dx * v"] plain[of ?dx "?dx * v"] unfolding r by auto
    qed
    have t: "integration_method g = Some TRAPEZOIDAL \<longrightarrow>
           (\<exists>g' l r. integral ?d = Some g' \<and>
              Function_call ?d (x - ?dx) = Inr l \<and> Function_call ?d x = Inr r \<and>
              points g' = points g @ [(fst ?q + ?dx, snd ?q + ?dx / 2 * (l + r))]) \<and>
           (integral g = None \<longrightarrow> fst ?ins = None)"
    proof
      assume m: "integration_method g = Some TRAPEZOIDAL"
      let ?r = "integrate_trapezoidal g ?f1 ?dx 1"
      have ins: "?ins = (fst ?r, Function (points f @ [(x, y)]) (Some (snd ?r)) (integration_method f))"
        using step(2)[OF i m] .
      obtain l r where v: "Function_call ?f1 (fst (last (points ?f1)) - ?dx) = Inr l"
        "Function_call ?f1 (fst (last (points ?f1))) = Inr r" using total by blast
      have r: "?r = Function_append g ?dx (?dx / 2 * (l + r))"
        using ne1 v by (rule integrate_trapezoidal_unfold)
      have "integral ?d = Some (snd ?r)" by (subst ins) simp
      moreover have "fst ?ins = fst ?r" by (subst ins) simp
      ultimately show "(\<exists>g' l r. integral ?d = Some g' \<and>
              Function_call ?d (x - ?dx) = Inr l \<and> Function_call ?d x = Inr r \<and>
              points g' = points g @ [(fst ?q + ?dx, snd ?q + ?dx / 2 * (l + r))]) \<and>
           (integral g = None \<longrightarrow> fst ?ins = None)"
        using v[unfolded lastx] call[OF i] at_end[of "?dx / 2 * (l + r)"]
          plain[of ?dx "?dx / 2 * (l + r)"] unfolding r by auto
    qed
    have k: "integration_method g = Some RK4 \<longrightarrow>
           (\<exists>g' k1 k2 k4. integral ?d = Some g' \<and>
              Function_call ?d x = Inr k1 \<and> Function_call ?d (x + ?dx / 2) = Inr k2 \<and>
              Function_call ?d (x + ?dx) = Inr k4 \<and>
              points g' = points g @ [(fst ?q + ?dx, snd ?q + ?dx / 6 * (k1 + 2 * (2 * k2) + k4))]) \<and>
           (integral g = None \<longrightarrow> fst ?ins = None)"
    proof
      assume m: "integration_method g = Some RK4"
      let ?r = "integrate_rk4 g ?f1 ?dx"
      have ins: "?ins = (fst ?r, Function (points f @ [(x, y)]) (Some (snd ?r)) (integration_method f))"
        using step(3)[OF i m] .
      obtain k1 k2 k4 where v: "Function_call ?f1 (fst (last (points ?f1))) = Inr k1"
        "Function_call ?f1 (fst (last (points ?f1)) + ?dx / 2) = Inr k2"
        "Function_call ?f1 (fst (last (points ?f1)) + ?dx) = Inr k4" using total by blast
      have r: "?r = Function_append g ?dx (?dx / 6 * (k1 + 2 * (2 * k2) + k4))"
        using ne1 v by (rule integrate_rk4_value)
      have "integral ?d = Some (snd ?r)" by (subst ins) simp
      moreover have "fst ?ins = fst ?r" by (subst ins) simp
      ultimately show "(\<exists>g' k1 k2 k4. integral ?d = Some g' \<and>
              Function_call ?d x = Inr k1 \<and> Function_call ?d (x + ?dx / 2) = Inr k2 \<and>
              Function_call ?d (x + ?dx) = Inr k4 \<and>
              points g' = points g @ [(fst ?q + ?dx, snd ?q + ?dx / 6 * (k1 + 2 * (2 * k2) + k4))]) \<and>
           (integral g = None \<longrightarrow> fst ?ins = None)"
        using v[unfolded lastx] call[OF i] at_end[of "?dx / 6 * (k1 + 2 * (2 * k2) + k4)"]
          plain[of ?dx "?dx / 6 * (k1 + 2 * (2 * k2) + k4)"] unfolding r by auto
    qed
    have ret: "integration_method g \<noteq> None \<and> integral g = None \<longrightarrow> fst ?ins = None"
    proof
      assume a: "integration_method g \<noteq> None \<and> integral g = None"
      then obtain m where "integration_method g = Some m" by auto
      then show "fst ?ins = None" using e t k a by (cases m) simp_all
    qed
    show "points ?d = points f @ [(x, y)] \<and>
        (integration_method g = Some EULER \<longrightarrow>
           (\<exists>g' v. integral ?d = Some g' \<and> Function_call ?d (fst ?q) = Inr v \<and>
              points g' = points g @ [(fst ?q + ?dx, snd ?q + ?dx * v)])) \<and>
        (integration_method g = Some TRAPEZOIDAL \<longrightarrow>
           (\<exists>g' l r. integral ?d = Some g' \<and>
              Function_call ?d (x - ?dx) = Inr l \<and> Function_call ?d x = Inr r \<and>
              points g' = points g @ [(fst ?q + ?dx, snd ?q + ?dx / 2 * (l + r))])) \<and>
        (integration_method g = Some RK4 \<longrightarrow>
           (\<exists>g' k1 k2 k4. integral ?d = Some g' \<and>
              Function_call ?d x = Inr k1 \<and> Function_call ?d (x + ?dx / 2) = Inr k2 \<and>
              Function_call ?d (x + ?dx) = Inr k4 \<and>
              points g' = points g @ [(fst ?q + ?dx, snd ?q + ?dx / 6 * (k1 + 2 * (2 * k2) + k4))])) \<and>
        (integration_method g \<noteq> None \<and> integral g = None \<longrightarrow> fst ?ins = None)"
      using pts[OF i] e t k ret by blast
  qed
  show ?thesis
    unfolding Let_def using rebuild returns ordered by blast
qed

lemma search_eval_middle: "search_best_index [(0, 1), (2, 1)] 1 0 (length [(0::real, 1::real), (2, 1)]) = Inr 1"
  by (simp add: search_best_index.simps py_index_def)

lemma search_eval_end: "search_best_index [(0, 1), (2, 1)] 3 0 (length [(0::real, 1::real), (2, 1)]) = Inr 2"
  by (simp add: search_best_index.simps py_index_def)

lemma call_eval_after_insert:
  assumes "points d = [(0, 1), (2, 1), (3, 4)]"
  shows "Function_call d 2 = Inr 1" "Function_call d 3 = Inr 4"
    "Function_call d (7 / 2) = Inr (11 / 2)" "Function_call d 4 = Inr 7"
  using assms
  by (simp_all add: Function_call_def search_best_index.simps py_index_def py_div_def)

theorem insert_updates_cached_integral_witness:
  "Function_insert (Function [(0, 1), (2, 1)] (Some (Function [(0, 0), (2, 2)] None (Some EULER))) None)
      1 1 False =
     Function_integral (Function [(0, 1), (1, 1), (2, 1)]
         (Some (Function [(0, 0), (2, 2)] None (Some EULER))) None) (Some EULER) 0 0 \<and>
   (\<exists>g'. integral (snd (Function_insert
        (Function [(0, 1), (2, 1)] (Some (Function [(0, 0), (2, 2)] None (Some EULER))) None)
        3 4 False)) = Some g' \<and> points g' = [(0, 0), (2, 2), (3, 3)]) \<and>
   (\<exists>g'. integral (snd (Function_insert
        (Function [(0, 1), (2, 1)] (Some (Function [(0, 0), (2, 2)] None (Some TRAPEZOIDAL))) None)
        3 4 False)) = Some g' \<and> points g' = [(0, 0), (2, 2), (3, 9 / 2)]) \<and>
   (\<exists>g'. integral (snd (Function_insert
        (Function [(0, 1), (2, 1)] (Some (Function [(0, 0), (2, 2)] None (Some RK4))) None)
        3 4 False)) = Some g' \<and> points g' = [(0, 0), (2, 2), (3, 15 / 2)]) \<and>
   fst (Function_insert
        (Function [(0, 1), (2, 1)] (Some (Function [(0, 0), (2, 2)] None (Some RK4))) None)
        3 4 False) = None"
proof -
  let ?g = "\<lambda>m. Function [(0, 0), (2, 2)] None (Some m)"
  let ?f = "\<lambda>m. Function [(0, 1), (2, 1)] (Some (?g m)) None"
  have a: "Function_insert (?f EULER) 1 1 False =
     Function_integral (Function [(0, 1), (1, 1), (2, 1)] (Some (?g EULER)) None) (Some EULER) 0 0"
    using insert_updates_cached_integral [of "?f EULER" "?g EULER" 1 1 False 1] search_eval_middle
    by (simp add: list_insert_def)
  have e: "\<exists>g'. integral (snd (Function_insert (?f EULER) 3 4 False)) = Some g' \<and>
      points g' = [(0, 0), (2, 2), (3, 3)]"
  proof -
    from insert_updates_cached_integral [of "?f EULER" "?g EULER" 3 2 False 4] search_eval_end
    have p: "points (snd (Function_insert (?f EULER) 3 4 False)) = [(0, 1), (2, 1), (3, 4)]"
      and "\<exists>g' v. integral (snd (Function_insert (?f EULER) 3 4 False)) = Some g' \<and>
         Function_call (snd (Function_insert (?f EULER) 3 4 False)) 2 = Inr v \<and>
         points g' = [(0, 0), (2, 2), (3, 2 + v)]"
      by (simp_all add: Let_def)
    then show ?thesis using call_eval_after_insert(1)[OF p] by auto
  qed
  have t: "\<exists>g'. integral (snd (Function_insert (?f TRAPEZOIDAL) 3 4 False)) = Some g' \<and>
      points g' = [(0, 0), (2, 2), (3, 9 / 2)]"
  proof -
    from insert_updates_cached_integral [of "?f TRAPEZOIDAL" "?g TRAPEZOIDAL" 3 2 False 4] search_eval_end
    have p: "points (snd (Function_insert (?f TRAPEZOIDAL) 3 4 False)) = [(0, 1), (2, 1), (3, 4)]"
      and "\<exists>g' l r. integral (snd (Function_insert (?f TRAPEZOIDAL) 3 4 False)) = Some g' \<and>
         Function_call (snd (Function_insert (?f TRAPEZOIDAL) 3 4 False)) 2 = Inr l \<and>
         Function_call (snd (Function_insert (?f TRAPEZOIDAL) 3 4 False)) 3 = Inr r \<and>
         points g' = [(0, 0), (2, 2), (3, 2 + (l + r) / 2)]"
      by (simp_all add: Let_def)
    then show ?thesis using call_eval_after_insert(1,2)[OF p] by auto
  qed
  have k: "(\<exists>g'. integral (snd (Function_insert (?f RK4) 3 4 False)) = Some g' \<and>
      points g' = [(0, 0), (2, 2), (3, 15 / 2)]) \<and>
      fst (Function_insert (?f RK4) 3 4 False) = None"
  proof -
    from insert_updates_cached_integral [of "?f RK4" "?g RK4" 3 2 False 4] search_eval_end
    have p: "points (snd (Function_insert (?f RK4) 3 4 False)) = [(0, 1), (2, 1), (3, 4)]"
      and "\<exists>g' k1 k2 k4. integral (snd (Function_insert (?f RK4) 3 4 False)) = Some g' \<and>
         Function_call (snd (Function_insert (?f RK4) 3 4 False)) 3 = Inr k1 \<and>
         Function_call (snd (Function_insert (?f RK4) 3 4 False)) (7 / 2) = Inr k2 \<and>
         Function_call (snd (Function_insert (?f RK4) 3 4 False)) 4 = Inr k4 \<and>
         points g' = [(0, 0), (2, 2), (3, 2 + (k1 + 2 * (2 * k2) + k4) / 6)]"
      and "fst (Function_insert (?f RK4) 3 4 False) = None"
      by (simp_all add: Let_def)
    then show ?thesis using call_eval_after_insert(2,3,4)[OF p] by auto
  qed
  show ?thesis using a e t k by simp
qed

section \<open>Vector functions and bodies (graph/vector_function.py, physics/)\<close>

text \<open>A \<^verbatim>\<open>VectorFunction\<close> that owns its two \<^verbatim>\<open>Function\<close> objects.\<close>

record VectorFunction =
  x_component :: Function
  y_component :: Function

definition VectorFunction_init :: VectorFunction where
  "VectorFunction_init = \<lparr>x_component = Function_init, y_component = Function_init\<rparr>"

text \<open>\<^verbatim>\<open>VectorFunction.insert\<close>: the x function first, then the y function.\<close>

definition VectorFunction_insert ::
  "VectorFunction \<Rightarrow> real \<Rightarrow> real \<Rightarrow> real \<Rightarrow> error option \<times> VectorFunction" where
  "VectorFunction_insert v t x y =
     (case Function_insert (x_component v) t x False of
        (Some e, fx) \<Rightarrow> (Some e, v\<lparr>x_component := fx\<rparr>)
      | (None, fx) \<Rightarrow>
          (case Function_insert (y_component v) t y False of
             (r, fy) \<Rightarrow> (r, v\<lparr>x_component := fx, y_component := fy\<rparr>)))"

text \<open>\<^verbatim>\<open>VectorFunction.seek\<close>.\<close>

definition VectorFunction_seek :: "VectorFunction \<Rightarrow> int \<Rightarrow> error + point \<times> point" where
  "VectorFunction_seek v i =
     (case Function_seek (x_component v) i of
        Inl e \<Rightarrow> Inl e
      | Inr p \<Rightarrow>
          (case Function_seek (y_component v) i of
             Inl e \<Rightarrow> Inl e
           | Inr q \<Rightarrow> Inr (p, q)))"

subsection \<open>BodyReplay (physics/body_replay.py)\<close>

record BodyReplay =
  replay_position :: VectorFunction
  replay_velocity :: VectorFunction
  replay_acceleration :: VectorFunction
  replay_index :: int
  replay_time :: real

text \<open>\<^verbatim>\<open>BodyReplay.step\<close>: the returned boolean and the object after the call. The
  \<^verbatim>\<open>except Exception\<close> clause catches whatever \<^verbatim>\<open>seek\<close> raises.\<close>

definition BodyReplay_step :: "BodyReplay \<Rightarrow> bool \<times> BodyReplay" where
  "BodyReplay_step b =
     (let b1 = b\<lparr>replay_index := replay_index b + 1\<rparr> in
      case Function_seek (x_component (replay_position b1)) (replay_index b1) of
        Inl e \<Rightarrow> (False, b1)
      | Inr p \<Rightarrow> (True, b1\<lparr>replay_time := fst p\<rparr>))"

text \<open>
  C10: \<^verbatim>\<open>BodyReplay.step\<close> always increments the index by one and changes nothing but the
  index and the time; it returns True exactly when the incremented index addresses a stored
  point of the position's x function (as a Python index), and then the time is that
  point's first coordinate, while otherwise the time is unchanged; and from an index that
  is not negative (the index starts at 0 and only \<^verbatim>\<open>step\<close> changes it), once a call has
  returned False every later call returns False.
\<close>

theorem BodyReplay_step_spec:
  "replay_index (snd (BodyReplay_step b)) = replay_index b + 1 \<and>
   replay_position (snd (BodyReplay_step b)) = replay_position b \<and>
   replay_velocity (snd (BodyReplay_step b)) = replay_velocity b \<and>
   replay_acceleration (snd (BodyReplay_step b)) = replay_acceleration b \<and>
   (fst (BodyReplay_step b) \<longleftrightarrow>
      - int (length (points (x_component (replay_position b)))) \<le> replay_index b + 1 \<and>
      replay_index b + 1 < int (length (points (x_component (replay_position b))))) \<and>
   (fst (BodyReplay_step b) \<longrightarrow>
      Function_seek (x_component (replay_position b)) (replay_index b + 1) =
        Inr (replay_time (snd (BodyReplay_step b)),
             snd (points (x_component (replay_position b)) !
               nat (if replay_index b + 1 < 0
                    then int (length (points (x_component (replay_position b)))) + (replay_index b + 1)
                    else replay_index b + 1)))) \<and>
   (\<not> fst (BodyReplay_step b) \<longrightarrow> replay_time (snd (BodyReplay_step b)) = replay_time b) \<and>
   (0 \<le> replay_index b \<and> \<not> fst (BodyReplay_step b) \<longrightarrow>
      \<not> fst (BodyReplay_step (((snd \<circ> BodyReplay_step) ^^ k) (snd (BodyReplay_step b)))))"
proof -
  let ?n = "int (length (points (x_component (replay_position b))))"
  have pos: "replay_position (((snd \<circ> BodyReplay_step) ^^ j) c) = replay_position c
      \<and> replay_index (((snd \<circ> BodyReplay_step) ^^ j) c) = replay_index c + int j" for j c
    by (induction j) (auto simp: BodyReplay_step_def Let_def split: sum.splits)
  have ret: "fst (BodyReplay_step c) \<longleftrightarrow>
      - int (length (points (x_component (replay_position c)))) \<le> replay_index c + 1 \<and>
      replay_index c + 1 < int (length (points (x_component (replay_position c))))" for c
    by (auto simp: BodyReplay_step_def Let_def Function_seek_def py_index_def split: sum.splits)
  have last: "0 \<le> replay_index b \<and> \<not> fst (BodyReplay_step b) \<longrightarrow>
      \<not> fst (BodyReplay_step (((snd \<circ> BodyReplay_step) ^^ k) (snd (BodyReplay_step b))))"
  proof
    assume h: "0 \<le> replay_index b \<and> \<not> fst (BodyReplay_step b)"
    then have "?n \<le> replay_index b + 1" using ret[of b] by auto
    moreover have "replay_position (snd (BodyReplay_step b)) = replay_position b"
      "replay_index (snd (BodyReplay_step b)) = replay_index b + 1"
      by (auto simp: BodyReplay_step_def Let_def split: sum.splits)
    ultimately show "\<not> fst (BodyReplay_step (((snd \<circ> BodyReplay_step) ^^ k) (snd (BodyReplay_step b))))"
      using pos[of k "snd (BodyReplay_step b)"] ret[of "((snd \<circ> BodyReplay_step) ^^ k) (snd (BodyReplay_step b))"]
      by auto
  qed
  have rest: "replay_index (snd (BodyReplay_step b)) = replay_index b + 1 \<and>
   replay_position (snd (BodyReplay_step b)) = replay_position b \<and>
   replay_velocity (snd (BodyReplay_step b)) = replay_velocity b \<and>
   replay_acceleration (snd (BodyReplay_step b)) = replay_acceleration b \<and>
   (fst (BodyReplay_step b) \<longrightarrow>
      Function_seek (x_component (replay_position b)) (replay_index b + 1) =
        Inr (replay_time (snd (BodyReplay_step b)),
             snd (points (x_component (replay_position b)) !
               nat (if replay_index b + 1 < 0
                    then int (length (points (x_component (replay_position b)))) + (replay_index b + 1)
                    else replay_index b + 1)))) \<and>
   (\<not> fst (BodyReplay_step b) \<longrightarrow> replay_time (snd (BodyReplay_step b)) = replay_time b)"
    by (auto simp: BodyReplay_step_def Let_def Function_seek_def py_index_def split: sum.splits if_splits)
  show ?thesis using rest ret[of b] last by blast
qed

theorem BodyReplay_step_spec_witness:
  "BodyReplay_step \<lparr>replay_position = \<lparr>x_component = Function [(0, 1), (1, 2)] None None,
        y_component = Function [(0, 3), (1, 4)] None None\<rparr>,
      replay_velocity = VectorFunction_init, replay_acceleration = VectorFunction_init,
      replay_index = 0, replay_time = 0\<rparr> =
    (True, \<lparr>replay_position = \<lparr>x_component = Function [(0, 1), (1, 2)] None None,
        y_component = Function [(0, 3), (1, 4)] None None\<rparr>,
      replay_velocity = VectorFunction_init, replay_acceleration = VectorFunction_init,
      replay_index = 1, replay_time = 1\<rparr>) \<and>
   \<not> fst (BodyReplay_step \<lparr>replay_position = \<lparr>x_component = Function [(0, 1), (1, 2)] None None,
        y_component = Function [(0, 3), (1, 4)] None None\<rparr>,
      replay_velocity = VectorFunction_init, replay_acceleration = VectorFunction_init,
      replay_index = 1, replay_time = 1\<rparr>) \<and>
   \<not> fst (BodyReplay_step (((snd \<circ> BodyReplay_step) ^^ 3) (snd (BodyReplay_step
      \<lparr>replay_position = \<lparr>x_component = Function [(0, 1), (1, 2)] None None,
        y_component = Function [(0, 3), (1, 4)] None None\<rparr>,
      replay_velocity = VectorFunction_init, replay_acceleration = VectorFunction_init,
      replay_index = 1, replay_time = 1\<rparr>))))"
proof -
  let ?b = "\<lparr>replay_position = \<lparr>x_component = Function [(0, 1), (1, 2)] None None,
        y_component = Function [(0, 3), (1, 4)] None None\<rparr>,
      replay_velocity = VectorFunction_init, replay_acceleration = VectorFunction_init,
      replay_index = 1, replay_time = 1\<rparr>"
  have a: "\<not> fst (BodyReplay_step ?b)"
    by (simp add: BodyReplay_step_def Let_def Function_seek_def py_index_def)
  have "0 \<le> replay_index ?b \<and> \<not> fst (BodyReplay_step ?b)" using a by simp
  with BodyReplay_step_spec [of ?b 3]
  have "\<not> fst (BodyReplay_step (((snd \<circ> BodyReplay_step) ^^ 3) (snd (BodyReplay_step ?b))))"
    by blast
  moreover have "BodyReplay_step \<lparr>replay_position = \<lparr>x_component = Function [(0, 1), (1, 2)] None None,
        y_component = Function [(0, 3), (1, 4)] None None\<rparr>,
      replay_velocity = VectorFunction_init, replay_acceleration = VectorFunction_init,
      replay_index = 0, replay_time = 0\<rparr> =
    (True, ?b)"
    by (simp add: BodyReplay_step_def Let_def Function_seek_def py_index_def)
  ultimately show ?thesis using a by blast
qed

subsection \<open>Forces and bodies (physics/force.py, gravity.py, pendulum_tension.py, body.py,
  animated_body.py, pendulum.py)\<close>

text \<open>
  A force object is its class and its constructor arguments; its \<^verbatim>\<open>body\<close> attribute is
  the body that holds it, which the methods below take as an argument. \<open>Force\<close> is the
  abstract base class.
\<close>

datatype Force = Force | Gravity (source_mass: real) (source_radius: real) | PendulumTension

text \<open>
  The \<^verbatim>\<open>velocity\<close> and \<^verbatim>\<open>position\<close> attributes of a body are references. After
  \<^verbatim>\<open>set_state\<close> the velocity functions are the very objects cached as the integrals of the
  acceleration functions, and the position functions those cached by the velocity
  functions: \<open>Cached_integral\<close> stands for "the object cached as the integral of the function
  one level up", \<open>Own f\<close> for an object of its own. A \<open>Cached_integral\<close> reference is only
  used where that cache is set.
\<close>

datatype Function_ref = Own Function | Cached_integral

record VectorFunction_ref =
  x_ref :: Function_ref
  y_ref :: Function_ref

text \<open>
  One record for \<^verbatim>\<open>Body\<close>, \<^verbatim>\<open>AnimatedBody\<close> and \<^verbatim>\<open>Pendulum\<close>: \<open>pendulum\<close> holds the
  attributes \<^verbatim>\<open>pivot\<close> and \<^verbatim>\<open>length\<close> of a \<^verbatim>\<open>Pendulum\<close> and is \<open>None\<close> for a body that is
  not one. \<open>forces\<close> is the dictionary in insertion order, keyed by the class of each force.
  The \<^verbatim>\<open>pre_step\<close> and \<^verbatim>\<open>post_step\<close> lists hold arbitrary callables on the body; they are
  arguments of \<open>step\<close> below.
\<close>

record AnimatedBody =
  mass :: real
  forces :: "Force list"
  position :: VectorFunction_ref
  velocity :: VectorFunction_ref
  acceleration :: VectorFunction
  dt :: real
  time :: real
  pendulum :: "(point \<times> real) option"

definition AnimatedBody_init :: "real \<Rightarrow> real \<Rightarrow> AnimatedBody" where
  "AnimatedBody_init m d =
     \<lparr>mass = m, forces = [],
      position = \<lparr>x_ref = Own Function_init, y_ref = Own Function_init\<rparr>,
      velocity = \<lparr>x_ref = Own Function_init, y_ref = Own Function_init\<rparr>,
      acceleration = VectorFunction_init, dt = d, time = 0, pendulum = None\<rparr>"

definition Pendulum_init :: "real \<Rightarrow> real \<Rightarrow> point \<Rightarrow> real \<Rightarrow> AnimatedBody" where
  "Pendulum_init m d pivot rope = (AnimatedBody_init m d)\<lparr>pendulum := Some (pivot, rope)\<rparr>"

definition deref :: "Function_ref \<Rightarrow> Function \<Rightarrow> Function" where
  "deref r parent =
     (case r of
        Own f \<Rightarrow> f
      | Cached_integral \<Rightarrow> (case integral parent of Some g \<Rightarrow> g | None \<Rightarrow> Function_init))"

definition velocity_x :: "AnimatedBody \<Rightarrow> Function" where
  "velocity_x b = deref (x_ref (velocity b)) (x_component (acceleration b))"

definition velocity_y :: "AnimatedBody \<Rightarrow> Function" where
  "velocity_y b = deref (y_ref (velocity b)) (y_component (acceleration b))"

definition position_x :: "AnimatedBody \<Rightarrow> Function" where
  "position_x b = deref (x_ref (position b)) (velocity_x b)"

definition position_y :: "AnimatedBody \<Rightarrow> Function" where
  "position_y b = deref (y_ref (position b)) (velocity_y b)"

text \<open>\<^verbatim>\<open>self.body.position.seek(index)\<close> and \<^verbatim>\<open>self.body.velocity.seek(index)\<close>.\<close>

definition position_seek :: "AnimatedBody \<Rightarrow> int \<Rightarrow> error + point \<times> point" where
  "position_seek b i =
     VectorFunction_seek \<lparr>x_component = position_x b, y_component = position_y b\<rparr> i"

definition velocity_seek :: "AnimatedBody \<Rightarrow> int \<Rightarrow> error + point \<times> point" where
  "velocity_seek b i =
     VectorFunction_seek \<lparr>x_component = velocity_x b, y_component = velocity_y b\<rparr> i"

text \<open>\<^verbatim>\<open>math.atan2(y, x)\<close> on reals.\<close>

definition atan2 :: "real \<Rightarrow> real \<Rightarrow> real" where
  "atan2 y x =
     (if 0 < x then arctan (y / x)
      else if x < 0 then (if 0 \<le> y then arctan (y / x) + pi else arctan (y / x) - pi)
      else if 0 < y then pi / 2
      else if y < 0 then - pi / 2
      else 0)"

text \<open>\<^verbatim>\<open>Pendulum.angle_from_pivot\<close> and \<^verbatim>\<open>Pendulum.distance_from_pivot\<close>.\<close>

definition angle_from_pivot :: "AnimatedBody \<Rightarrow> error + real" where
  "angle_from_pivot b =
     (case position_seek b (- 1) of
        Inl e \<Rightarrow> Inl e
      | Inr pq \<Rightarrow>
          (case pendulum b of
             None \<Rightarrow> Inl AttributeError
           | Some pl \<Rightarrow>
               Inr (atan2 (snd (snd pq) - snd (fst pl)) (snd (fst pq) - fst (fst pl)))))"

definition distance_from_pivot :: "AnimatedBody \<Rightarrow> error + real" where
  "distance_from_pivot b =
     (case position_seek b (- 1) of
        Inl e \<Rightarrow> Inl e
      | Inr pq \<Rightarrow>
          (case pendulum b of
             None \<Rightarrow> Inl AttributeError
           | Some pl \<Rightarrow>
               Inr (sqrt ((snd (fst pq) - fst (fst pl))\<^sup>2 + (snd (snd pq) - snd (fst pl))\<^sup>2))))"

text \<open>\<^verbatim>\<open>get_direction\<close> of the three classes.\<close>

definition get_direction :: "Force \<Rightarrow> AnimatedBody \<Rightarrow> error + real" where
  "get_direction f b =
     (case f of
        Force \<Rightarrow> Inl NotImplementedError
      | Gravity m r \<Rightarrow> Inr (- pi / 2)
      | PendulumTension \<Rightarrow>
          (case position_seek b (- 1) of
             Inl e \<Rightarrow> Inl e
           | Inr pq \<Rightarrow>
               (case pendulum b of
                  None \<Rightarrow> Inl AttributeError
                | Some pl \<Rightarrow>
                    Inr (atan2 (snd (fst pl) - snd (snd pq)) (fst (fst pl) - snd (fst pq))))))"

definition gravitational_constant :: real where
  "gravitational_constant = 6674 / 10 ^ 14"

text \<open>\<^verbatim>\<open>Gravity.get_magnitude\<close>.\<close>

definition Gravity_get_magnitude :: "real \<Rightarrow> real \<Rightarrow> AnimatedBody \<Rightarrow> error + real" where
  "Gravity_get_magnitude m r b =
     (case position_seek b (- 1) of
        Inl e \<Rightarrow> Inl e
      | Inr pq \<Rightarrow>
          (case py_div (gravitational_constant * m) ((r + snd (snd pq))\<^sup>2) of
             Inl e \<Rightarrow> Inl e
           | Inr freefall_acceleration \<Rightarrow> Inr (mass b * freefall_acceleration)))"

text \<open>\<^verbatim>\<open>self.body.forces[gravity.Gravity]\<close>: the force stored under the key \<^verbatim>\<open>Gravity\<close>.\<close>

fun forces_Gravity :: "Force list \<Rightarrow> error + real \<times> real" where
  "forces_Gravity [] = Inl KeyError"
| "forces_Gravity (Gravity m r # fs) = Inr (m, r)"
| "forces_Gravity (f # fs) = forces_Gravity fs"

text \<open>\<^verbatim>\<open>get_magnitude\<close> of the three classes.\<close>

definition get_magnitude :: "Force \<Rightarrow> AnimatedBody \<Rightarrow> error + real" where
  "get_magnitude f b =
     (case f of
        Force \<Rightarrow> Inl NotImplementedError
      | Gravity m r \<Rightarrow> Gravity_get_magnitude m r b
      | PendulumTension \<Rightarrow>
          (case forces_Gravity (forces b) of
             Inl e \<Rightarrow> Inl e
           | Inr mr \<Rightarrow>
               (case Gravity_get_magnitude (fst mr) (snd mr) b of
                  Inl e \<Rightarrow> Inl e
                | Inr g \<Rightarrow>
                    (case get_direction PendulumTension b of
                       Inl e \<Rightarrow> Inl e
                     | Inr d \<Rightarrow>
                         (case velocity_seek b (- 1) of
                            Inl e \<Rightarrow> Inl e
                          | Inr v \<Rightarrow>
                              (case distance_from_pivot b of
                                 Inl e \<Rightarrow> Inl e
                               | Inr distance \<Rightarrow>
                                   (case py_div ((snd (fst v))\<^sup>2 + (snd (snd v))\<^sup>2) distance of
                                      Inl e \<Rightarrow> Inl e
                                    | Inr q \<Rightarrow> Inr (g * sin d + mass b * q))))))))"

text \<open>\<^verbatim>\<open>Body.add_force\<close>: the constructors of the three classes only store their arguments,
  and the assignment to the dictionary replaces the force of the same class where it
  stands, or adds the new one at the end.\<close>

fun same_class :: "Force \<Rightarrow> Force \<Rightarrow> bool" where
  "same_class Force Force = True"
| "same_class (Gravity m r) (Gravity m' r') = True"
| "same_class PendulumTension PendulumTension = True"
| "same_class f g = False"

fun forces_set :: "Force list \<Rightarrow> Force \<Rightarrow> Force list" where
  "forces_set [] f = [f]"
| "forces_set (g # gs) f = (if same_class g f then f # gs else g # forces_set gs f)"

definition add_force :: "AnimatedBody \<Rightarrow> Force \<Rightarrow> error option \<times> AnimatedBody" where
  "add_force b f = (None, b\<lparr>forces := forces_set (forces b) f\<rparr>)"

text \<open>\<^verbatim>\<open>Body.get_net_force\<close>: the loop over \<^verbatim>\<open>self.forces.values()\<close>, then the method.\<close>

fun net_force_loop :: "AnimatedBody \<Rightarrow> Force list \<Rightarrow> real \<times> real \<Rightarrow> error + real \<times> real" where
  "net_force_loop b [] net = Inr net"
| "net_force_loop b (f # fs) net =
     (case get_magnitude f b of
        Inl e \<Rightarrow> Inl e
      | Inr magnitude \<Rightarrow>
          (case get_direction f b of
             Inl e \<Rightarrow> Inl e
           | Inr direction \<Rightarrow>
               net_force_loop b fs
                 (fst net + cos direction * magnitude, snd net + sin direction * magnitude)))"

definition get_net_force :: "AnimatedBody \<Rightarrow> error + real \<times> real" where
  "get_net_force b = net_force_loop b (forces b) (0, 0)"

text \<open>\<^verbatim>\<open>AnimatedBody.generate_acceleration\<close>.\<close>

definition generate_acceleration :: "AnimatedBody \<Rightarrow> error + real \<times> real" where
  "generate_acceleration b =
     (case get_net_force b of
        Inl e \<Rightarrow> Inl e
      | Inr net \<Rightarrow>
          (case py_div (fst net) (mass b) of
             Inl e \<Rightarrow> Inl e
           | Inr ax \<Rightarrow>
               (case py_div (snd net) (mass b) of
                  Inl e \<Rightarrow> Inl e
                | Inr ay \<Rightarrow> Inr (ax, ay))))"

text \<open>
  An insert into an acceleration function that is not at the end replaces the cached
  integral by a new object (the first statement of \<^verbatim>\<open>integral\<close>); a velocity reference to
  the old cached object then refers to an object of its own. \<open>replaces_integral\<close> says when
  \<^verbatim>\<open>insert\<close> reaches the call of \<^verbatim>\<open>integral\<close>.
\<close>

definition replaces_integral :: "Function \<Rightarrow> real \<Rightarrow> bool" where
  "replaces_integral f x =
     (case integral f of
        None \<Rightarrow> False
      | Some g \<Rightarrow>
          points g \<noteq> [] \<and>
          search_best_index (points f) x 0 (length (points f)) \<noteq> Inr (length (points f)))"

definition keep_ref :: "Function_ref \<Rightarrow> Function \<Rightarrow> real \<Rightarrow> Function_ref" where
  "keep_ref r f x =
     (case r of
        Own g \<Rightarrow> Own g
      | Cached_integral \<Rightarrow> (if replaces_integral f x then Own (deref Cached_integral f) else Cached_integral))"

text \<open>\<^verbatim>\<open>self.acceleration.insert(time, x, y)\<close> on the body: \<^verbatim>\<open>VectorFunction.insert\<close> with
  the velocity references kept on their objects.\<close>

definition acceleration_insert ::
  "AnimatedBody \<Rightarrow> real \<Rightarrow> real \<Rightarrow> real \<Rightarrow> error option \<times> AnimatedBody" where
  "acceleration_insert b t x y =
     (let a = acceleration b;
          b1 = b\<lparr>velocity := (velocity b)\<lparr>x_ref := keep_ref (x_ref (velocity b)) (x_component a) t\<rparr>\<rparr>
      in
      case Function_insert (x_component a) t x False of
        (Some e, fx) \<Rightarrow> (Some e, b1\<lparr>acceleration := a\<lparr>x_component := fx\<rparr>\<rparr>)
      | (None, fx) \<Rightarrow>
          (let b2 = b1\<lparr>velocity := (velocity b1)\<lparr>y_ref := keep_ref (y_ref (velocity b1)) (y_component a) t\<rparr>\<rparr>
           in
           case Function_insert (y_component a) t y False of
             (r, fy) \<Rightarrow> (r, b2\<lparr>acceleration := a\<lparr>x_component := fx, y_component := fy\<rparr>\<rparr>)))"

text \<open>\<^verbatim>\<open>AnimatedBody.__step_acceleration\<close>.\<close>

definition step_acceleration :: "AnimatedBody \<Rightarrow> error option \<times> AnimatedBody" where
  "step_acceleration b =
     (case generate_acceleration b of
        Inl e \<Rightarrow> (Some e, b)
      | Inr a \<Rightarrow> acceleration_insert b (time b) (fst a) (snd a))"

text \<open>The two \<^verbatim>\<open>for\<close> loops of \<^verbatim>\<open>step\<close> over the callbacks, and \<^verbatim>\<open>AnimatedBody.step\<close>.\<close>

type_synonym callback = "AnimatedBody \<Rightarrow> error option \<times> AnimatedBody"

fun run_callbacks :: "callback list \<Rightarrow> AnimatedBody \<Rightarrow> error option \<times> AnimatedBody" where
  "run_callbacks [] b = (None, b)"
| "run_callbacks (c # cs) b =
     (case c b of
        (Some e, b') \<Rightarrow> (Some e, b')
      | (None, b') \<Rightarrow> run_callbacks cs b')"

definition step :: "callback list \<Rightarrow> callback list \<Rightarrow> AnimatedBody \<Rightarrow> error option \<times> AnimatedBody" where
  "step pre_step post_step b =
     (case run_callbacks pre_step b of
        (Some e, b1) \<Rightarrow> (Some e, b1)
      | (None, b1) \<Rightarrow>
          (case step_acceleration (b1\<lparr>time := time b1 + dt b1\<rparr>) of
             (Some e, b2) \<Rightarrow> (Some e, b2)
           | (None, b2) \<Rightarrow> run_callbacks post_step b2))"

section \<open>Stepping a body\<close>

lemma forces_Gravity_set:
  "forces_Gravity fs = Inl KeyError \<Longrightarrow> forces_Gravity (forces_set fs PendulumTension) = Inl KeyError"
proof (induction fs)
  case Nil
  then show ?case by simp
next
  case (Cons f fs)
  then show ?case by (cases f) (simp_all split: if_splits)
qed

lemma forces_set_member: "f \<in> set (forces_set fs f)"
  by (induction fs) simp_all

lemma step_no_callbacks: "step [] [] b = step_acceleration (b\<lparr>time := time b + dt b\<rparr>)"
  by (cases "step_acceleration (b\<lparr>time := time b + dt b\<rparr>)")
    (simp add: step_def split: option.splits)

lemma init_seek:
  "position_seek (AnimatedBody_init m d\<lparr>forces := fs, time := t\<rparr>) (- 1) = Inl IndexError"
  by (simp add: position_seek_def VectorFunction_seek_def Function_seek_def position_x_def
      velocity_x_def deref_def AnimatedBody_init_def Function_init_def py_index_def)

text \<open>
  C6 as the code has it: attaching a \<^verbatim>\<open>PendulumTension\<close> to a body whose forces hold no
  \<^verbatim>\<open>Gravity\<close> returns normally and stores the force; the missing \<^verbatim>\<open>Gravity\<close> is a KeyError of
  \<^verbatim>\<open>get_magnitude\<close>, and so of the next \<^verbatim>\<open>step\<close> when the tension is the only force.
\<close>

theorem PendulumTension_without_Gravity:
  assumes "forces_Gravity (forces b) = Inl KeyError"
  shows "fst (add_force b PendulumTension) = None \<and>
    PendulumTension \<in> set (forces (snd (add_force b PendulumTension))) \<and>
    get_magnitude PendulumTension (snd (add_force b PendulumTension)) = Inl KeyError \<and>
    (forces b = [] \<longrightarrow>
       step [] [] (snd (add_force b PendulumTension)) =
         (Some KeyError, (snd (add_force b PendulumTension))\<lparr>time := time b + dt b\<rparr>))"
proof -
  let ?b = "snd (add_force b PendulumTension)"
  have f: "forces ?b = forces_set (forces b) PendulumTension" by (simp add: add_force_def)
  have g: "forces_Gravity (forces ?b) = Inl KeyError"
    unfolding f using assms by (rule forces_Gravity_set)
  have m: "get_magnitude PendulumTension ?b = Inl KeyError"
    using g by (simp add: get_magnitude_def)
  have "forces b = [] \<Longrightarrow> generate_acceleration (?b\<lparr>time := time b + dt b\<rparr>) = Inl KeyError"
    by (simp add: generate_acceleration_def get_net_force_def get_magnitude_def add_force_def)
  then have s: "forces b = [] \<longrightarrow>
       step [] [] ?b = (Some KeyError, ?b\<lparr>time := time b + dt b\<rparr>)"
    by (simp add: step_no_callbacks step_acceleration_def add_force_def)
  show ?thesis using m s forces_set_member[of PendulumTension "forces b"]
    by (simp add: add_force_def)
qed

theorem PendulumTension_without_Gravity_witness:
  "get_magnitude PendulumTension (snd (add_force (Pendulum_init 1 (1 / 2) (0, 0) 1) PendulumTension))
     = Inl KeyError \<and>
   fst (step [] [] (snd (add_force (Pendulum_init 1 (1 / 2) (0, 0) 1) PendulumTension)))
     = Some KeyError"
  using PendulumTension_without_Gravity [of "Pendulum_init 1 (1 / 2) (0, 0) 1"]
  by (simp add: Pendulum_init_def AnimatedBody_init_def)

theorem PendulumTension_attach_counterexample:
  "forces_Gravity (forces (Pendulum_init 1 (1 / 2) (0, 0) 1)) = Inl KeyError \<and>
   add_force (Pendulum_init 1 (1 / 2) (0, 0) 1) PendulumTension =
     (None, (Pendulum_init 1 (1 / 2) (0, 0) 1)\<lparr>forces := [PendulumTension]\<rparr>)"
  by (simp add: Pendulum_init_def AnimatedBody_init_def add_force_def)

text \<open>
  C7 as the code has it: on a body on which \<^verbatim>\<open>set_state\<close> was never called the velocity
  and position functions are empty; the first \<^verbatim>\<open>step\<close> with no force attached (and a mass
  other than 0) returns normally and stores the sample (dt, 0) in both acceleration
  functions; with a \<^verbatim>\<open>Gravity\<close> attached it raises the IndexError of \<^verbatim>\<open>seek\<close> on the empty
  position function, with the time already advanced.
\<close>

theorem first_step_without_set_state:
  "points (position_x (AnimatedBody_init m d)) = [] \<and>
   points (position_y (AnimatedBody_init m d)) = [] \<and>
   points (velocity_x (AnimatedBody_init m d)) = [] \<and>
   points (velocity_y (AnimatedBody_init m d)) = [] \<and>
   (m \<noteq> 0 \<longrightarrow>
      step [] [] (AnimatedBody_init m d) =
        (None, (AnimatedBody_init m d)
           \<lparr>acceleration := \<lparr>x_component = Function [(d, 0)] None None,
                              y_component = Function [(d, 0)] None None\<rparr>,
            time := d\<rparr>)) \<and>
   step [] [] (snd (add_force (AnimatedBody_init m d) (Gravity sm sr))) =
     (Some IndexError, (snd (add_force (AnimatedBody_init m d) (Gravity sm sr)))\<lparr>time := d\<rparr>)"
proof -
  have e: "points (position_x (AnimatedBody_init m d)) = [] \<and>
   points (position_y (AnimatedBody_init m d)) = [] \<and>
   points (velocity_x (AnimatedBody_init m d)) = [] \<and>
   points (velocity_y (AnimatedBody_init m d)) = []"
    by (simp add: position_x_def position_y_def velocity_x_def velocity_y_def deref_def
        AnimatedBody_init_def Function_init_def)
  have ins: "Function_insert Function_init d 0 False = (None, Function [(d, 0)] None None)"
    unfolding Function_init_def by (rule Function_insert_seed)
  have a: "m \<noteq> 0 \<Longrightarrow> generate_acceleration ((AnimatedBody_init m d)\<lparr>time := d\<rparr>) = Inr (0, 0)"
    by (simp add: generate_acceleration_def get_net_force_def AnimatedBody_init_def py_div_def)
  have s1: "m \<noteq> 0 \<longrightarrow>
      step [] [] (AnimatedBody_init m d) =
        (None, (AnimatedBody_init m d)
           \<lparr>acceleration := \<lparr>x_component = Function [(d, 0)] None None,
                              y_component = Function [(d, 0)] None None\<rparr>,
            time := d\<rparr>)"
  proof
    assume "m \<noteq> 0"
    from a[OF this] have "generate_acceleration ((AnimatedBody_init m d)\<lparr>time := 0 + d\<rparr>) = Inr (0, 0)"
      by simp
    then show "step [] [] (AnimatedBody_init m d) =
        (None, (AnimatedBody_init m d)
           \<lparr>acceleration := \<lparr>x_component = Function [(d, 0)] None None,
                              y_component = Function [(d, 0)] None None\<rparr>,
            time := d\<rparr>)"
      unfolding step_no_callbacks
      by (simp add: step_acceleration_def acceleration_insert_def Let_def keep_ref_def
          AnimatedBody_init_def VectorFunction_init_def ins)
  qed
  let ?g = "snd (add_force (AnimatedBody_init m d) (Gravity sm sr))"
  have g: "?g = (AnimatedBody_init m d)\<lparr>forces := [Gravity sm sr]\<rparr>"
    by (simp add: add_force_def AnimatedBody_init_def)
  have "generate_acceleration (AnimatedBody_init m d\<lparr>forces := [Gravity sm sr], time := d\<rparr>) = Inl IndexError"
    by (simp add: generate_acceleration_def get_net_force_def get_magnitude_def
        Gravity_get_magnitude_def init_seek)
  then have s2: "step [] [] ?g = (Some IndexError, ?g\<lparr>time := d\<rparr>)"
    unfolding step_no_callbacks g by (simp add: step_acceleration_def AnimatedBody_init_def)
  show ?thesis using e s1 s2 by blast
qed

theorem first_step_without_set_state_witness:
  "step [] [] (AnimatedBody_init 2 (1 / 4)) =
     (None, (AnimatedBody_init 2 (1 / 4))
        \<lparr>acceleration := \<lparr>x_component = Function [(1 / 4, 0)] None None,
                           y_component = Function [(1 / 4, 0)] None None\<rparr>,
         time := 1 / 4\<rparr>)"
  using first_step_without_set_state [of 2 "1 / 4"] by simp

theorem first_step_counterexample:
  "fst (step [] [] (AnimatedBody_init 1 1)) = None \<and>
   points (x_component (acceleration (snd (step [] [] (AnimatedBody_init 1 1))))) = [(1, 0)]"
proof -
  have ins: "Function_insert Function_init 1 0 False = (None, Function [(1, 0)] None None)"
    unfolding Function_init_def by (rule Function_insert_seed)
  have "generate_acceleration ((AnimatedBody_init 1 1)\<lparr>time := 0 + 1\<rparr>) = Inr (0, 0)"
    by (simp add: generate_acceleration_def get_net_force_def AnimatedBody_init_def py_div_def)
  then show ?thesis
    unfolding step_no_callbacks
    by (simp add: step_acceleration_def acceleration_insert_def Let_def keep_ref_def
        AnimatedBody_init_def VectorFunction_init_def ins)
qed

text \<open>
  C5 as the code has it: \<^verbatim>\<open>step\<close> rolls nothing back. When a pre-step callback fails the
  body is left as the callbacks made it; when the acceleration cannot be computed the body
  is as the pre-step callbacks left it except that its time is already advanced by dt; when
  the insert of the acceleration fails the body is as the insert left it; otherwise the
  outcome is that of the post-step callbacks.
\<close>

theorem step_leaves_failed_state:
  "(run_callbacks pre b = (Some e, b1) \<longrightarrow> step pre post b = (Some e, b1)) \<and>
   (run_callbacks pre b = (None, b1) \<and>
      generate_acceleration (b1\<lparr>time := time b1 + dt b1\<rparr>) = Inl e \<longrightarrow>
      step pre post b = (Some e, b1\<lparr>time := time b1 + dt b1\<rparr>)) \<and>
   (run_callbacks pre b = (None, b1) \<and>
      step_acceleration (b1\<lparr>time := time b1 + dt b1\<rparr>) = (Some e, b2) \<longrightarrow>
      step pre post b = (Some e, b2)) \<and>
   (run_callbacks pre b = (None, b1) \<and>
      step_acceleration (b1\<lparr>time := time b1 + dt b1\<rparr>) = (None, b2) \<longrightarrow>
      step pre post b = run_callbacks post b2)"
  by (simp add: step_def step_acceleration_def)

theorem step_leaves_failed_state_witness:
  "step [] [] ((AnimatedBody_init 1 (1 / 2))\<lparr>forces := [Gravity 1 1]\<rparr>) =
     (Some IndexError, (AnimatedBody_init 1 (1 / 2))\<lparr>forces := [Gravity 1 1], time := 1 / 2\<rparr>)"
proof -
  let ?b = "(AnimatedBody_init 1 (1 / 2))\<lparr>forces := [Gravity 1 1]\<rparr>"
  have t: "?b\<lparr>time := time ?b + dt ?b\<rparr> = (AnimatedBody_init 1 (1 / 2))\<lparr>forces := [Gravity 1 1], time := 1 / 2\<rparr>"
    by (simp add: AnimatedBody_init_def)
  have "generate_acceleration (?b\<lparr>time := time ?b + dt ?b\<rparr>) = Inl IndexError"
    unfolding t
    by (simp add: generate_acceleration_def get_net_force_def get_magnitude_def
        Gravity_get_magnitude_def init_seek)
  with step_leaves_failed_state [of "[]" ?b IndexError ?b "[]"]
  show ?thesis unfolding t by simp
qed

theorem step_rollback_counterexample:
  "fst (step [] [] ((AnimatedBody_init 1 (1 / 2))\<lparr>forces := [PendulumTension]\<rparr>)) = Some KeyError \<and>
   time (snd (step [] [] ((AnimatedBody_init 1 (1 / 2))\<lparr>forces := [PendulumTension]\<rparr>))) = 1 / 2 \<and>
   time ((AnimatedBody_init 1 (1 / 2))\<lparr>forces := [PendulumTension]\<rparr>) = 0"
  unfolding step_no_callbacks
  by (simp add: step_acceleration_def generate_acceleration_def get_net_force_def
      get_magnitude_def AnimatedBody_init_def)

end
